theory Spec2Isabelle
  imports Main
begin

section \<open>Strings as the click handler reads them\<close>

text \<open>
  The handler of \<^verbatim>\<open>yootil.create.bbc_tab\<close> decides everything from the id attribute
  of a tab header: it tests the id against \<^verbatim>\<open>/bbcode|visual/i\<close> and it rebuilds the
  id of the content panel with \<^verbatim>\<open>id.split("menu-item-")[1]\<close>. Both are modelled on
  \<^typ>\<open>string\<close>, character by character.
\<close>

definition upper_case :: string where
  "upper_case = ''ABCDEFGHIJKLMNOPQRSTUVWXYZ''"

definition lower_case :: string where
  "lower_case = ''abcdefghijklmnopqrstuvwxyz''"

definition digit_chars :: string where
  "digit_chars = ''0123456789''"

definition to_lower :: "char \<Rightarrow> char" where
  "to_lower c = (case map_of (zip upper_case lower_case) c of Some d \<Rightarrow> d | None \<Rightarrow> c)"

fun starts_with :: "string \<Rightarrow> string \<Rightarrow> bool" where
  "starts_with [] s = True"
| "starts_with (p # ps) [] = False"
| "starts_with (p # ps) (c # cs) = (p = c \<and> starts_with ps cs)"

fun has_substring :: "string \<Rightarrow> string \<Rightarrow> bool" where
  "has_substring p [] = (p = [])"
| "has_substring p (c # cs) = (starts_with p (c # cs) \<or> has_substring p cs)"

text \<open>\<^verbatim>\<open>id.match(/bbcode|visual/i)\<close>: a case-insensitive search for either word anywhere
  in the id; the handler only uses whether there is a match.\<close>

definition match_builtin :: "string \<Rightarrow> bool" where
  "match_builtin s =
     (has_substring ''bbcode'' (map to_lower s) \<or> has_substring ''visual'' (map to_lower s))"

text \<open>\<^verbatim>\<open>String.prototype.split\<close> with a non-empty separator: the pieces between the
  occurrences of the separator, found from left to right without overlap. \<open>acc\<close> holds the
  current piece, reversed.\<close>

fun split_from :: "string \<Rightarrow> string \<Rightarrow> string \<Rightarrow> string list" where
  "split_from sep acc [] = [rev acc]"
| "split_from sep acc (c # cs) =
     (if sep \<noteq> [] \<and> starts_with sep (c # cs)
      then rev acc # split_from sep [] (drop (length sep) (c # cs))
      else split_from sep (c # acc) cs)"

definition split :: "string \<Rightarrow> string \<Rightarrow> string list" where
  "split sep s = split_from sep [] s"

text \<open>
  The selector the handler builds from a header id:
  \<^verbatim>\<open>let selector = ""; if(id){ selector = "#" + id.split("menu-item-")[1]; }\<close>
  An id without the separator has no second piece; JavaScript then concatenates the text
  \<^verbatim>\<open>undefined\<close>.
\<close>

definition selector_of :: "string \<Rightarrow> string" where
  "selector_of i =
     (if i = [] then []
      else CHR ''#'' # (case split ''menu-item-'' i of
                          a # b # rest \<Rightarrow> b
                        | _ \<Rightarrow> ''undefined''))"

text \<open>jQuery answers a selector of the shape \<^verbatim>\<open>#name\<close>, the name made of one or more
  letters, digits, underscores and hyphens, with \<^verbatim>\<open>document.getElementById\<close>.\<close>

definition name_char :: "char \<Rightarrow> bool" where
  "name_char c = (c \<in> set (lower_case @ upper_case @ digit_chars @ ''_-''))"

definition is_id_selector :: "string \<Rightarrow> bool" where
  "is_id_selector sel =
     (case sel of [] \<Rightarrow> False | c # cs \<Rightarrow> c = CHR ''#'' \<and> cs \<noteq> [] \<and> list_all name_char cs)"

section \<open>The page\<close>

text \<open>
  The state is the part of the document that \<^verbatim>\<open>bbc_tab\<close> and its click handler read and
  write, together with a log of the effects in the order they happen.

  \<^item> \<open>before_tabs\<close>: what precedes the tab row \<^verbatim>\<open>.editor ul.wysiwyg-tabs\<close> in document
    order, as a list of elements, each with the elements inside it (\<open>e_inner\<close>, in
    document order), the last one being the row's previous sibling. An ancestor of the
    row is listed as an element of its own, without the elements inside it, which are
    listed after it. \<open>after_tabs\<close>: what follows the row, in the same way.
  \<^item> \<open>wysiwyg_tabs\<close>: the \<^verbatim>\<open>li\<close> headers of the tab row, each with the elements inside it
    (\<open>li_inner\<close>), or \<open>None\<close> when the page has no tab row (the selector then matches
    nothing). \<open>tabs_id\<close> and \<open>tabs_shown\<close> are the id attribute and the display state of
    the \<^verbatim>\<open>ul\<close> itself, and mean nothing without a row. The page model describes one tab
    row whose \<^verbatim>\<open>li\<close> elements are its headers: a page with several tab rows, and a header
    that holds \<^verbatim>\<open>li\<close> elements of its own, are outside of it.
  \<^item> \<open>editors_shown\<close>: the native editor surface \<^verbatim>\<open>.editor .ui-wysiwyg .editors\<close>, shown
    and hidden as one group.
  \<^item> \<open>effects\<close>: the calls of user callbacks and the writes to the document, oldest first.

  A node of the document is named by its place (\<open>target\<close>): \<open>InBefore n\<close>, \<open>InRow n\<close> and
  \<open>InAfter n\<close> for the \<open>n\<close>-th element of a list, \<open>WithinBefore n k\<close>, \<open>WithinRow n k\<close> and
  \<open>WithinAfter n k\<close> for the \<open>k\<close>-th element inside it, \<open>TheRow\<close> for the \<^verbatim>\<open>ul\<close>. Nothing in
  this code removes or reorders nodes: a panel is added at the end of \<open>before_tabs\<close> and a
  header at the end of the row, so a place keeps naming the same node.
\<close>

text \<open>The exceptions: \<^verbatim>\<open>TypeError\<close> for a member read of \<^verbatim>\<open>undefined\<close> or \<^verbatim>\<open>null\<close>,
  \<^verbatim>\<open>SyntaxError\<close> for a selector the engine rejects, \<^verbatim>\<open>ReferenceError\<close> for a read of an
  identifier that is not declared.\<close>

datatype error = TypeError | SyntaxError | ReferenceError

datatype target =
    InBefore nat
  | InRow nat
  | InAfter nat
  | TheRow
  | WithinBefore nat nat
  | WithinRow nat nat
  | WithinAfter nat nat

type_synonym callback = string

type_synonym this_value = string

text \<open>The \<^verbatim>\<open>events\<close> argument: \<^verbatim>\<open>show\<close>, \<^verbatim>\<open>hide\<close> and \<^verbatim>\<open>context\<close>, each \<open>None\<close>
  when the member is missing or falsy. A callback is a user function, named here by a
  string; calling it appends to the log and, in this model, does nothing else to the page.\<close>

record events =
  ev_show :: "callback option"
  ev_hide :: "callback option"
  ev_context :: "this_value option"

text \<open>What the click handler created by one call of \<^verbatim>\<open>bbc_tab\<close> has captured:
  \<^verbatim>\<open>$tab\<close>, \<^verbatim>\<open>$tab_content\<close> and \<^verbatim>\<open>events\<close> (\<open>None\<close>: a falsy \<^verbatim>\<open>events\<close>).\<close>

record closure =
  cl_tab :: target
  cl_tab_content :: target
  cl_events :: "events option"

text \<open>An element inside another one: its tag, its classes, its id attribute, if it has
  one, and whether it is shown.\<close>

record inner =
  i_tag :: string
  i_classes :: "string list"
  i_id :: "string option"
  i_shown :: bool

record elem =
  e_id :: "string option"
  e_html :: string
  e_css :: "(string \<times> string) list"
  e_shown :: bool
  e_inner :: "inner list"

record li =
  li_id :: "string option"
  li_title :: string
  li_active :: bool
  li_shown :: bool
  li_click :: "closure list"
  li_inner :: "inner list"

datatype effect =
    Call callback "this_value option" target target
  | Hide "target list"
  | Show "target list"
  | HideEditors
  | ShowEditors

record page =
  before_tabs :: "elem list"
  wysiwyg_tabs :: "li list option"
  after_tabs :: "elem list"
  editors_shown :: bool
  effects :: "effect list"
  tabs_id :: "string option"
  tabs_shown :: bool

subsection \<open>Finding and showing nodes\<close>

fun index_where :: "('a \<Rightarrow> bool) \<Rightarrow> 'a list \<Rightarrow> nat option" where
  "index_where P [] = None"
| "index_where P (x # xs) = (if P x then Some 0 else map_option Suc (index_where P xs))"

fun map_at :: "nat \<Rightarrow> ('a \<Rightarrow> 'a) \<Rightarrow> 'a list \<Rightarrow> 'a list" where
  "map_at n f [] = []"
| "map_at 0 f (x # xs) = f x # xs"
| "map_at (Suc n) f (x # xs) = x # map_at n f xs"

fun nth_opt :: "'a list \<Rightarrow> nat \<Rightarrow> 'a option" where
  "nth_opt [] n = None"
| "nth_opt (x # xs) 0 = Some x"
| "nth_opt (x # xs) (Suc n) = nth_opt xs n"

definition row :: "page \<Rightarrow> li list" where
  "row p = (case wysiwyg_tabs p of None \<Rightarrow> [] | Some lis \<Rightarrow> lis)"

text \<open>The id attribute of the \<^verbatim>\<open>ul\<close>, when there is a row.\<close>

definition tabs_ident :: "page \<Rightarrow> string option" where
  "tabs_ident p = (case wysiwyg_tabs p of None \<Rightarrow> None | Some lis \<Rightarrow> tabs_id p)"

text \<open>The id attributes of an element and of the elements inside it, in document order.\<close>

type_synonym ids = "string option \<times> string option list"

definition elem_ids :: "elem \<Rightarrow> ids" where
  "elem_ids e = (e_id e, map i_id (e_inner e))"

definition li_ids :: "li \<Rightarrow> ids" where
  "li_ids l = (li_id l, map i_id (li_inner l))"

text \<open>The first place in document order where an id is found in a list of elements: the
  \<open>n\<close>-th element itself, or the \<open>k\<close>-th element inside it.\<close>

datatype place = Self nat | Within nat nat

fun shift :: "place \<Rightarrow> place" where
  "shift (Self n) = Self (Suc n)"
| "shift (Within n k) = Within (Suc n) k"

fun search :: "string \<Rightarrow> ids list \<Rightarrow> place option" where
  "search x [] = None"
| "search x (e # es) =
     (if fst e = Some x then Some (Self 0)
      else (case index_where (\<lambda>i. i = Some x) (snd e) of
              Some k \<Rightarrow> Some (Within 0 k)
            | None \<Rightarrow> map_option shift (search x es)))"

text \<open>\<^verbatim>\<open>document.getElementById\<close>: the first node in document order with that id, looked
  for in what precedes the row, then in the \<^verbatim>\<open>ul\<close> itself, its headers and what they hold,
  then in what follows the row.\<close>

definition getElementById :: "string \<Rightarrow> page \<Rightarrow> target option" where
  "getElementById x p =
     (case search x (map elem_ids (before_tabs p)) of
        Some (Self n) \<Rightarrow> Some (InBefore n)
      | Some (Within n k) \<Rightarrow> Some (WithinBefore n k)
      | None \<Rightarrow>
         if tabs_ident p = Some x then Some TheRow
         else (case search x (map li_ids (row p)) of
                 Some (Self n) \<Rightarrow> Some (InRow n)
               | Some (Within n k) \<Rightarrow> Some (WithinRow n k)
               | None \<Rightarrow>
                  (case search x (map elem_ids (after_tabs p)) of
                     Some (Self n) \<Rightarrow> Some (InAfter n)
                   | Some (Within n k) \<Rightarrow> Some (WithinAfter n k)
                   | None \<Rightarrow> None)))"

text \<open>
  \<^verbatim>\<open>$(selector)\<close>. The empty selector gives the empty set; \<^verbatim>\<open>#name\<close> goes through
  \<^verbatim>\<open>getElementById\<close> and gives at most one node. Every other selector is answered by
  jQuery's selector engine, which is not part of this repository and whose answers differ
  between jQuery versions (\<^verbatim>\<open>$("#")\<close> is empty in some and a syntax error in others):
  the engine is a parameter, \<open>None\<close> standing for the error it throws. The engine reads
  the document, not the log of effects, which it gets empty.
\<close>

type_synonym engine = "string \<Rightarrow> page \<Rightarrow> target list option"

definition jq :: "engine \<Rightarrow> string \<Rightarrow> page \<Rightarrow> error + target list" where
  "jq eng sel p =
     (if sel = [] then Inr []
      else if is_id_selector sel then
        Inr (case getElementById (tl sel) p of None \<Rightarrow> [] | Some t \<Rightarrow> [t])
      else (case eng sel (p\<lparr>effects := []\<rparr>) of None \<Rightarrow> Inl SyntaxError | Some ts \<Rightarrow> Inr ts))"

text \<open>\<^verbatim>\<open>hide()\<close> and \<^verbatim>\<open>show()\<close> on one node set the display state of that node; a place
  that names no node is left alone.\<close>

definition set_inner :: "bool \<Rightarrow> nat \<Rightarrow> inner list \<Rightarrow> inner list" where
  "set_inner b k xs = map_at k (\<lambda>i. i\<lparr>i_shown := b\<rparr>) xs"

definition set_shown :: "bool \<Rightarrow> target \<Rightarrow> page \<Rightarrow> page" where
  "set_shown b t p =
     (case t of
        InBefore n \<Rightarrow> p\<lparr>before_tabs := map_at n (\<lambda>e. e\<lparr>e_shown := b\<rparr>) (before_tabs p)\<rparr>
      | InRow n \<Rightarrow> p\<lparr>wysiwyg_tabs := map_option (map_at n (\<lambda>l. l\<lparr>li_shown := b\<rparr>)) (wysiwyg_tabs p)\<rparr>
      | InAfter n \<Rightarrow> p\<lparr>after_tabs := map_at n (\<lambda>e. e\<lparr>e_shown := b\<rparr>) (after_tabs p)\<rparr>
      | TheRow \<Rightarrow> p\<lparr>tabs_shown := b\<rparr>
      | WithinBefore n k \<Rightarrow>
         p\<lparr>before_tabs := map_at n (\<lambda>e. e\<lparr>e_inner := set_inner b k (e_inner e)\<rparr>) (before_tabs p)\<rparr>
      | WithinRow n k \<Rightarrow>
         p\<lparr>wysiwyg_tabs :=
             map_option (map_at n (\<lambda>l. l\<lparr>li_inner := set_inner b k (li_inner l)\<rparr>)) (wysiwyg_tabs p)\<rparr>
      | WithinAfter n k \<Rightarrow>
         p\<lparr>after_tabs := map_at n (\<lambda>e. e\<lparr>e_inner := set_inner b k (e_inner e)\<rparr>) (after_tabs p)\<rparr>)"

text \<open>Whether a node is shown, as its own display state says; \<open>None\<close> when the place names
  no node.\<close>

definition inner_shown :: "inner list option \<Rightarrow> nat \<Rightarrow> bool option" where
  "inner_shown xs k = (case xs of None \<Rightarrow> None | Some ys \<Rightarrow> map_option i_shown (nth_opt ys k))"

definition displayed :: "page \<Rightarrow> target \<Rightarrow> bool option" where
  "displayed p t =
     (case t of
        InBefore n \<Rightarrow> map_option e_shown (nth_opt (before_tabs p) n)
      | InRow n \<Rightarrow> map_option li_shown (nth_opt (row p) n)
      | InAfter n \<Rightarrow> map_option e_shown (nth_opt (after_tabs p) n)
      | TheRow \<Rightarrow> (case wysiwyg_tabs p of None \<Rightarrow> None | Some lis \<Rightarrow> Some (tabs_shown p))
      | WithinBefore n k \<Rightarrow> inner_shown (map_option e_inner (nth_opt (before_tabs p) n)) k
      | WithinRow n k \<Rightarrow> inner_shown (map_option li_inner (nth_opt (row p) n)) k
      | WithinAfter n k \<Rightarrow> inner_shown (map_option e_inner (nth_opt (after_tabs p) n)) k)"

definition emit :: "effect \<Rightarrow> page \<Rightarrow> page" where
  "emit e p = p\<lparr>effects := effects p @ [e]\<rparr>"

text \<open>\<^verbatim>\<open>$(selector).hide()\<close> and \<^verbatim>\<open>$(selector).show()\<close> on the nodes selected.\<close>

definition hide :: "target list \<Rightarrow> page \<Rightarrow> page" where
  "hide ts p = emit (Hide ts) (fold (set_shown False) ts p)"

definition show_nodes :: "target list \<Rightarrow> page \<Rightarrow> page" where
  "show_nodes ts p = emit (Show ts) (fold (set_shown True) ts p)"

definition hide_editors :: "page \<Rightarrow> page" where
  "hide_editors p = emit HideEditors (p\<lparr>editors_shown := False\<rparr>)"

definition show_editors :: "page \<Rightarrow> page" where
  "show_editors p = emit ShowEditors (p\<lparr>editors_shown := True\<rparr>)"

section \<open>\<^verbatim>\<open>yootil.create.bbc_tab\<close>\<close>

subsection \<open>The click handler\<close>

text \<open>
  Calling a callback: \<^verbatim>\<open>events.hide.bind(events.context)($tab, $tab_content)\<close> when there
  is a context, \<^verbatim>\<open>events.hide($tab, $tab_content)\<close> otherwise, and nothing when \<^verbatim>\<open>events\<close>
  or the callback is missing. The two arguments are the captured \<^verbatim>\<open>$tab\<close> and
  \<^verbatim>\<open>$tab_content\<close>.
\<close>

definition call_hide :: "closure \<Rightarrow> page \<Rightarrow> page" where
  "call_hide cl p =
     (case cl_events cl of
        None \<Rightarrow> p
      | Some ev \<Rightarrow>
         (case ev_hide ev of
            None \<Rightarrow> p
          | Some f \<Rightarrow> emit (Call f (ev_context ev) (cl_tab cl) (cl_tab_content cl)) p))"

definition call_show :: "closure \<Rightarrow> page \<Rightarrow> page" where
  "call_show cl p =
     (case cl_events cl of
        None \<Rightarrow> p
      | Some ev \<Rightarrow>
         (case ev_show ev of
            None \<Rightarrow> p
          | Some f \<Rightarrow> emit (Call f (ev_context ev) (cl_tab cl) (cl_tab_content cl)) p))"

text \<open>
  The body of \<^verbatim>\<open>$active.parent().find("li").each(function(){ ... })\<close> for one header,
  whose id attribute is \<open>i\<close> (\<open>None\<close>: the header has no id attribute, \<^verbatim>\<open>attr("id")\<close> is
  \<^verbatim>\<open>undefined\<close> and \<^verbatim>\<open>id.match\<close> throws). \<open>active\<close> is the id attribute of the clicked
  header. \<^verbatim>\<open>$(selector)\<close> is evaluated twice, as in the source: for the test of its
  length, and again after the callback for \<^verbatim>\<open>hide()\<close>.
\<close>

definition each_li :: "engine \<Rightarrow> closure \<Rightarrow> string option \<Rightarrow> string option \<Rightarrow> page \<Rightarrow> error + page" where
  "each_li eng cl active i p =
     (case i of
        None \<Rightarrow> Inl TypeError
      | Some x \<Rightarrow>
         if match_builtin x then Inr (hide_editors p)
         else if active = Some x then Inr p
         else (case jq eng (selector_of x) p of
                 Inl e \<Rightarrow> Inl e
               | Inr ts \<Rightarrow>
                  if ts = [] then Inr p
                  else (let p' = call_hide cl p in
                        case jq eng (selector_of x) p' of
                          Inl e \<Rightarrow> Inl e
                        | Inr ts' \<Rightarrow> Inr (hide ts' p'))))"

text \<open>The loop of \<^verbatim>\<open>each\<close> over the headers of the row; an exception ends it.\<close>

fun each_loop :: "engine \<Rightarrow> closure \<Rightarrow> string option \<Rightarrow> string option list \<Rightarrow> page \<Rightarrow> error + page" where
  "each_loop eng cl active [] p = Inr p"
| "each_loop eng cl active (i # is) p =
     (case each_li eng cl active i p of
        Inl e \<Rightarrow> Inl e
      | Inr p' \<Rightarrow> each_loop eng cl active is p')"

text \<open>The part of the handler after the loop, for the clicked header; \<^verbatim>\<open>$(selector)\<close> is
  evaluated for the test and again for \<^verbatim>\<open>show()\<close>.\<close>

definition show_active :: "engine \<Rightarrow> closure \<Rightarrow> string option \<Rightarrow> page \<Rightarrow> error + page" where
  "show_active eng cl active p =
     (case active of
        None \<Rightarrow> Inl TypeError
      | Some x \<Rightarrow>
         if match_builtin x then Inr (show_editors p)
         else (case jq eng (selector_of x) p of
                 Inl e \<Rightarrow> Inl e
               | Inr ts \<Rightarrow>
                  if ts = [] then Inr p
                  else (let p' = call_show cl p in
                        case jq eng (selector_of x) p' of
                          Inl e \<Rightarrow> Inl e
                        | Inr ts' \<Rightarrow> Inr (show_nodes ts' p'))))"

text \<open>\<^verbatim>\<open>removeClass("ui-active")\<close> on every header, then \<^verbatim>\<open>addClass("ui-active")\<close> on the
  clicked one.\<close>

definition mark_active :: "nat \<Rightarrow> li list \<Rightarrow> li list" where
  "mark_active n lis =
     map_at n (\<lambda>l. l\<lparr>li_active := True\<rparr>) (map (\<lambda>l. l\<lparr>li_active := False\<rparr>) lis)"

text \<open>
  The handler \<^verbatim>\<open>function(e){ ... }\<close> bound by one registration, run for a click on the
  \<open>n\<close>-th header of the row. \<^verbatim>\<open>e.preventDefault()\<close> and \<^verbatim>\<open>console.log(events)\<close> do not
  touch the page. An exception leaves the handler with the writes made so far; the model
  keeps the error only.
\<close>

definition click_handler :: "engine \<Rightarrow> closure \<Rightarrow> nat \<Rightarrow> page \<Rightarrow> error + page" where
  "click_handler eng cl n p =
     (case nth_opt (row p) n of
        None \<Rightarrow> Inr p
      | Some this \<Rightarrow>
         (let p1 = p\<lparr>wysiwyg_tabs := Some (mark_active n (row p))\<rparr> in
          case each_loop eng cl (li_id this) (map li_id (row p1)) p1 of
            Inl e \<Rightarrow> Inl e
          | Inr p2 \<Rightarrow> show_active eng cl (li_id this) p2))"

text \<open>A click on the \<open>n\<close>-th header runs the handlers bound to it, in the order they were
  bound; jQuery lets an exception of a handler escape, so the later ones do not run.\<close>

fun run_handlers :: "engine \<Rightarrow> closure list \<Rightarrow> nat \<Rightarrow> page \<Rightarrow> error + page" where
  "run_handlers eng [] n p = Inr p"
| "run_handlers eng (cl # cls) n p =
     (case click_handler eng cl n p of
        Inl e \<Rightarrow> Inl e
      | Inr p' \<Rightarrow> run_handlers eng cls n p')"

definition click :: "engine \<Rightarrow> nat \<Rightarrow> page \<Rightarrow> error + page" where
  "click eng n p =
     (case nth_opt (row p) n of
        None \<Rightarrow> Inr p
      | Some this \<Rightarrow> run_handlers eng (li_click this) n p)"

text \<open>A sequence of clicks, one header after the other.\<close>

fun clicks :: "engine \<Rightarrow> nat list \<Rightarrow> page \<Rightarrow> error + page" where
  "clicks eng [] p = Inr p"
| "clicks eng (n # ns) p =
     (case click eng n p of
        Inl e \<Rightarrow> Inl e
      | Inr p' \<Rightarrow> clicks eng ns p')"

subsection \<open>Registering a tab\<close>

text \<open>
  The argument object of \<^verbatim>\<open>bbc_tab\<close>. \<open>None\<close> for \<open>arg_title\<close>, \<open>arg_content\<close> and \<open>arg_id\<close>
  is a member left out, which takes the default of the signature (\<^verbatim>\<open>"My Tab"\<close>, \<^verbatim>\<open>""\<close>,
  \<^verbatim>\<open>""\<close>). \<open>arg_css\<close> is \<open>None\<close> unless \<^verbatim>\<open>css\<close> is an object. \<open>arg_events\<close> is \<open>None\<close> for a
  falsy \<^verbatim>\<open>events\<close>; a member left out is the default \<^verbatim>\<open>{}\<close>, an \<open>events\<close> record without
  callbacks.

  Title, content and id are put into markup by string concatenation and parsed by
  jQuery. The HTML parser is the browser's: title and content come as a \<open>markup\<close>, the
  text together with the elements that the parser makes of it, in document order, each
  with its id attribute and its display state. The id is taken as text that the parser
  gives back unchanged (without quotes or character references), title and content as
  balanced markup. A title that holds \<^verbatim>\<open>li\<close> elements, and a title or a content that holds
  an element that \<^verbatim>\<open>.editor ul.wysiwyg-tabs\<close> selects, give a page outside the page model.
\<close>

type_synonym markup = "string \<times> inner list"

record tab_args =
  arg_title :: "markup option"
  arg_content :: "markup option"
  arg_id :: "string option"
  arg_css :: "(string \<times> string) list option"
  arg_events :: "events option"

datatype created = Attached target | Detached elem

definition default_css :: "(string \<times> string) list" where
  "default_css = [(''border'', ''1px solid #E6E6E6''), (''padding'', ''5px'')]"

text \<open>\<^verbatim>\<open>id = id || yootil.timestamp()\<close>. \<^verbatim>\<open>yootil.timestamp\<close> is not among the sources;
  \<open>now\<close> is the text of what it returns at this call.\<close>

definition effective_id :: "string \<Rightarrow> tab_args \<Rightarrow> string" where
  "effective_id now a =
     (case arg_id a of
        None \<Rightarrow> now
      | Some i \<Rightarrow> if i = [] then now else i)"

text \<open>The header \<^verbatim>\<open><li id='menu-item-ID'><a href='#'>TITLE</a></li>\<close>: inside it are the
  \<^verbatim>\<open>a\<close> element, which has no id, and after it the elements of the title.\<close>

definition anchor :: inner where
  "anchor = \<lparr>i_tag = ''a'', i_classes = [], i_id = None, i_shown = True\<rparr>"

definition new_tab :: "string \<Rightarrow> tab_args \<Rightarrow> li" where
  "new_tab now a =
     \<lparr>li_id = Some (''menu-item-'' @ effective_id now a),
      li_title = (case arg_title a of None \<Rightarrow> ''My Tab'' | Some t \<Rightarrow> fst t),
      li_active = False, li_shown = True, li_click = [],
      li_inner = anchor # (case arg_title a of None \<Rightarrow> [] | Some t \<Rightarrow> snd t)\<rparr>"

text \<open>The panel \<^verbatim>\<open><div id='ID'>CONTENT</div>\<close> after \<^verbatim>\<open>$tab_content.css(...)\<close> and
  \<^verbatim>\<open>$tab_content.hide()\<close>; inside it are the elements of the content.\<close>

definition new_tab_content :: "string \<Rightarrow> tab_args \<Rightarrow> elem" where
  "new_tab_content now a =
     \<lparr>e_id = Some (effective_id now a),
      e_html = (case arg_content a of None \<Rightarrow> [] | Some c \<Rightarrow> fst c),
      e_css = (case arg_css a of None \<Rightarrow> default_css | Some c \<Rightarrow> c),
      e_shown = False,
      e_inner = (case arg_content a of None \<Rightarrow> [] | Some c \<Rightarrow> snd c)\<rparr>"

text \<open>\<^verbatim>\<open>$wysiwyg_tabs.find("li").click(handler)\<close>: the handler is added after those the
  header already has.\<close>

definition bind_click :: "closure \<Rightarrow> li \<Rightarrow> li" where
  "bind_click cl l = l\<lparr>li_click := li_click l @ [cl]\<rparr>"

text \<open>
  \<^verbatim>\<open>bbc_tab\<close>: append the header to the row, insert the hidden panel before the row, bind
  the handler to every header now in the row, return the panel. Without a tab row
  \<^verbatim>\<open>append\<close>, \<^verbatim>\<open>insertBefore\<close> and \<^verbatim>\<open>click\<close> act on an empty set: the page stays as it is
  and the panel returned is not in the document.
\<close>

definition bbc_tab :: "string \<Rightarrow> tab_args \<Rightarrow> page \<Rightarrow> created \<times> page" where
  "bbc_tab now a p =
     (case wysiwyg_tabs p of
        None \<Rightarrow> (Detached (new_tab_content now a), p)
      | Some lis \<Rightarrow>
         (let cl = \<lparr>cl_tab = InRow (length lis),
                    cl_tab_content = InBefore (length (before_tabs p)),
                    cl_events = arg_events a\<rparr>
          in (Attached (InBefore (length (before_tabs p))),
              p\<lparr>before_tabs := before_tabs p @ [new_tab_content now a],
                wysiwyg_tabs := Some (map (bind_click cl) (lis @ [new_tab now a]))\<rparr>)))"

text \<open>Several registrations, one after the other, each with the timestamp of its call.\<close>

fun register_tabs :: "(string \<times> tab_args) list \<Rightarrow> page \<Rightarrow> page" where
  "register_tabs [] p = p"
| "register_tabs (r # rs) p = register_tabs rs (snd (bbc_tab (fst r) (snd r) p))"

section \<open>\<^verbatim>\<open>yootil.page.__get_data\<close>\<close>

text \<open>
  JavaScript values as far as \<^verbatim>\<open>__get_data\<close> looks at them. Objects are held by reference:
  a value \<open>Ref a\<close> points to the object at address \<open>a\<close> of the store, which has its own
  properties and a prototype (\<open>None\<close> at the end of the chain). Arrays and functions are
  objects too: an array has its indices and \<^verbatim>\<open>length\<close> as own properties, and whether an
  object can be called makes no difference to a read. A property is a data property:
  accessor properties and proxies, whose read runs code, are outside the model. Of a
  number the function only looks at whether it is falsy, so a number is an integer or
  \<^verbatim>\<open>NaN\<close>; symbols, bigints and the falsy object \<^verbatim>\<open>document.all\<close> are left out. The key is
  the property name, a string.

  The language refuses to close a prototype chain into a cycle, so the objects can be
  numbered with every prototype before the objects that inherit from it; the store is
  taken to be numbered that way.
\<close>

type_synonym addr = nat

datatype jsval =
    Undefined
  | Null
  | Boolean bool
  | Number int
  | NaN
  | String string
  | Ref addr

record obj =
  o_props :: "(string \<times> jsval) list"
  o_proto :: "addr option"

text \<open>What the function finds around it: the store of objects, and the prototypes that a
  read of a member of a string, a number or a boolean goes to (\<^verbatim>\<open>String.prototype\<close>,
  \<^verbatim>\<open>Number.prototype\<close>, \<^verbatim>\<open>Boolean.prototype\<close>).\<close>

record realm =
  objects :: "(addr \<times> obj) list"
  string_prototype :: addr
  number_prototype :: addr
  boolean_prototype :: addr

text \<open>The identifier \<^verbatim>\<open>proboards\<close> is either declared, holding a value, or not declared
  at all, in which case reading it throws.\<close>

datatype binding = Undeclared | Declared jsval

definition truthy :: "jsval \<Rightarrow> bool" where
  "truthy v =
     (case v of
        Undefined \<Rightarrow> False
      | Null \<Rightarrow> False
      | Boolean b \<Rightarrow> b
      | Number n \<Rightarrow> n \<noteq> 0
      | NaN \<Rightarrow> False
      | String s \<Rightarrow> s \<noteq> []
      | Ref a \<Rightarrow> True)"

text \<open>The read of property \<open>k\<close> of the object at address \<open>a\<close>: its own property, or else
  that of its prototype, and so on along the chain; \<^verbatim>\<open>undefined\<close> when the chain ends.
  \<open>lookup\<close> has the object found at the address as its third argument.\<close>

fun lookup :: "(addr \<times> obj) list \<Rightarrow> addr \<Rightarrow> obj option \<Rightarrow> string \<Rightarrow> jsval" where
  "lookup h a None k = Undefined"
| "lookup h a (Some ob) k =
     (case map_of (o_props ob) k of
        Some v \<Rightarrow> v
      | None \<Rightarrow>
         (case o_proto ob of
            None \<Rightarrow> Undefined
          | Some b \<Rightarrow> if b < a then lookup h b (map_of h b) k else Undefined))"

definition get_property :: "(addr \<times> obj) list \<Rightarrow> addr \<Rightarrow> string \<Rightarrow> jsval" where
  "get_property h a k = lookup h a (map_of h a) k"

text \<open>The own properties of a string: \<^verbatim>\<open>length\<close>, and the characters under their indices,
  written in decimal without leading zeros.\<close>

definition digit_value :: "char \<Rightarrow> nat option" where
  "digit_value c = index_where (\<lambda>d. d = c) digit_chars"

fun decimal :: "nat \<Rightarrow> string \<Rightarrow> nat option" where
  "decimal n [] = Some n"
| "decimal n (c # cs) =
     (case digit_value c of
        None \<Rightarrow> None
      | Some d \<Rightarrow> decimal (10 * n + d) cs)"

definition array_index :: "string \<Rightarrow> nat option" where
  "array_index k =
     (if k = [] \<or> (hd k = CHR ''0'' \<and> tl k \<noteq> []) then None else decimal 0 k)"

definition string_property :: "string \<Rightarrow> string \<Rightarrow> jsval option" where
  "string_property s k =
     (if k = ''length'' then Some (Number (int (length s)))
      else (case array_index k of
              None \<Rightarrow> None
            | Some n \<Rightarrow> map_option (\<lambda>c. String [c]) (nth_opt s n)))"

text \<open>\<^verbatim>\<open>v[key]\<close>. A read of a member of \<^verbatim>\<open>undefined\<close> or \<^verbatim>\<open>null\<close> throws a TypeError; a
  read of a member of another primitive value goes to the prototype of its kind, after
  the own properties of a string.\<close>

definition member :: "realm \<Rightarrow> jsval \<Rightarrow> string \<Rightarrow> error + jsval" where
  "member r v k =
     (case v of
        Undefined \<Rightarrow> Inl TypeError
      | Null \<Rightarrow> Inl TypeError
      | Boolean b \<Rightarrow> Inr (get_property (objects r) (boolean_prototype r) k)
      | Number n \<Rightarrow> Inr (get_property (objects r) (number_prototype r) k)
      | NaN \<Rightarrow> Inr (get_property (objects r) (number_prototype r) k)
      | String s \<Rightarrow>
         Inr (case string_property s k of
                Some w \<Rightarrow> w
              | None \<Rightarrow> get_property (objects r) (string_prototype r) k)
      | Ref a \<Rightarrow> Inr (get_property (objects r) a k))"

text \<open>
  \<^verbatim>\<open>if(proboards && proboards.dataHash && proboards.dataHash.page &&
      typeof proboards.dataHash.page[key] != "undefined"){ return proboards.dataHash.page[key]; }
  return "";\<close>
  The conjunction is evaluated from the left and stops at the first falsy operand. The
  source reads \<^verbatim>\<open>proboards.dataHash\<close>, \<^verbatim>\<open>proboards.dataHash.page\<close> and the property under the
  key more than once; a read changes nothing, so each is read once here.
\<close>

definition get_data :: "realm \<Rightarrow> binding \<Rightarrow> string \<Rightarrow> error + jsval" where
  "get_data r proboards key =
     (case proboards of
        Undeclared \<Rightarrow> Inl ReferenceError
      | Declared pb \<Rightarrow>
         if \<not> truthy pb then Inr (String [])
         else (case member r pb ''dataHash'' of
                 Inl e \<Rightarrow> Inl e
               | Inr dh \<Rightarrow>
                  if \<not> truthy dh then Inr (String [])
                  else (case member r dh ''page'' of
                          Inl e \<Rightarrow> Inl e
                        | Inr pg \<Rightarrow>
                           if \<not> truthy pg then Inr (String [])
                           else (case member r pg key of
                                   Inl e \<Rightarrow> Inl e
                                 | Inr v \<Rightarrow> if v \<noteq> Undefined then Inr v else Inr (String [])))))"

section \<open>Notions used in the statements\<close>

text \<open>What a click never changes: the id of every node and the handlers bound to every
  header. Selectors that go through \<^verbatim>\<open>getElementById\<close> are answered from this part of the
  page alone.\<close>

definition frame :: "page \<Rightarrow> ids list \<times> string option \<times> ids list \<times> closure list list \<times> ids list" where
  "frame p =
     (map elem_ids (before_tabs p), tabs_ident p, map li_ids (row p), map li_click (row p),
      map elem_ids (after_tabs p))"

text \<open>
  A header id the handler deals with without the selector engine and without an exception:
  the id is there, and it either counts as built-in, or is empty (the selector is empty
  and selects nothing), or gives a selector \<^verbatim>\<open>#name\<close>.
\<close>

definition plain_id :: "string option \<Rightarrow> bool" where
  "plain_id i =
     (case i of
        None \<Rightarrow> False
      | Some x \<Rightarrow> match_builtin x \<or> x = [] \<or> is_id_selector (selector_of x))"

text \<open>The closures that successive registrations create, the first for a row of \<open>r\<close>
  headers with \<open>b\<close> elements before it.\<close>

fun closures :: "nat \<Rightarrow> nat \<Rightarrow> (string \<times> tab_args) list \<Rightarrow> closure list" where
  "closures r b [] = []"
| "closures r b (x # xs) =
     \<lparr>cl_tab = InRow r, cl_tab_content = InBefore b, cl_events = arg_events (snd x)\<rparr>
       # closures (Suc r) (Suc b) xs"

text \<open>Every callback call in a list of effects is a call of one of the closure's own
  callbacks, with the closure's own context, header and panel.\<close>

fun own_calls :: "closure \<Rightarrow> effect list \<Rightarrow> bool" where
  "own_calls cl [] = True"
| "own_calls cl (Call f c t u # es) =
     (t = cl_tab cl \<and> u = cl_tab_content cl
      \<and> (case cl_events cl of
            None \<Rightarrow> False
          | Some ev \<Rightarrow> c = ev_context ev \<and> (ev_show ev = Some f \<or> ev_hide ev = Some f))
      \<and> own_calls cl es)"
| "own_calls cl (e # es) = own_calls cl es"

text \<open>How often a callback was called.\<close>

fun call_count :: "callback \<Rightarrow> effect list \<Rightarrow> nat" where
  "call_count f [] = 0"
| "call_count f (Call g c t u # es) = (if g = f then Suc (call_count f es) else call_count f es)"
| "call_count f (e # es) = call_count f es"

definition count_after :: "callback \<Rightarrow> error + page \<Rightarrow> nat option" where
  "count_after f r = (case r of Inl e \<Rightarrow> None | Inr p \<Rightarrow> Some (call_count f (effects p)))"

text \<open>What the expression \<^verbatim>\<open>v[k]\<close> gives, with \<^verbatim>\<open>undefined\<close> where it throws.\<close>

definition read :: "realm \<Rightarrow> jsval \<Rightarrow> string \<Rightarrow> jsval" where
  "read r v k = (case member r v k of Inl e \<Rightarrow> Undefined | Inr w \<Rightarrow> w)"

text \<open>The property that a value has of its own under a key, not from a prototype.\<close>

definition own_property :: "realm \<Rightarrow> jsval \<Rightarrow> string \<Rightarrow> jsval option" where
  "own_property r v k =
     (case v of
        Ref a \<Rightarrow> (case map_of (objects r) a of None \<Rightarrow> None | Some ob \<Rightarrow> map_of (o_props ob) k)
      | String s \<Rightarrow> string_property s k
      | _ \<Rightarrow> None)"

text \<open>The platform's page data: the value of \<^verbatim>\<open>proboards.dataHash.page\<close>, when \<^verbatim>\<open>proboards\<close>,
  \<^verbatim>\<open>proboards.dataHash\<close> and \<^verbatim>\<open>proboards.dataHash.page\<close> are all truthy; \<open>None\<close> otherwise.\<close>

definition page_data :: "realm \<Rightarrow> jsval \<Rightarrow> jsval option" where
  "page_data r pb =
     (if truthy pb \<and> truthy (read r pb ''dataHash'')
         \<and> truthy (read r (read r pb ''dataHash'') ''page'')
      then Some (read r (read r pb ''dataHash'') ''page'')
      else None)"

text \<open>A click on the \<open>n\<close>-th header is handled when that header is in the row and has at
  least one click handler bound.\<close>

definition handled :: "page \<Rightarrow> nat \<Rightarrow> bool" where
  "handled p n = (case nth_opt (row p) n of None \<Rightarrow> False | Some l \<Rightarrow> li_click l \<noteq> [])"

text \<open>
  The state of the panels after a click on the header with id \<open>xa\<close>, as seen from the page
  \<open>p\<close> before it: when \<open>xa\<close> counts as built-in the native editor surface is shown; and
  every node that the selector of a header of the row that is not built-in selects is
  shown exactly when the clicked header is not built-in and its own selector selects
  that node.
\<close>

definition click_post :: "engine \<Rightarrow> page \<Rightarrow> string \<Rightarrow> page \<Rightarrow> bool" where
  "click_post eng p xa q =
     ((match_builtin xa \<longrightarrow> editors_shown q)
      \<and> (\<forall>x ts t. Some x \<in> set (map li_id (row p)) \<and> \<not> match_builtin x
             \<and> jq eng (selector_of x) p = Inr ts \<and> t \<in> set ts
           \<longrightarrow> displayed q t =
                 Some (\<not> match_builtin xa \<and> (\<exists>tsa. jq eng (selector_of xa) p = Inr tsa \<and> t \<in> set tsa))))"

text \<open>
  An id under which \<^verbatim>\<open>bbc_tab\<close> creates a header that the handler can match with its
  panel: not empty, made of the characters of a \<^verbatim>\<open>#name\<close> selector, without the separator
  \<^verbatim>\<open>menu-item-\<close> inside, and such that the id of the header does not count as built-in.
\<close>

definition good_id :: "string \<Rightarrow> bool" where
  "good_id i = (i \<noteq> [] \<and> list_all name_char i \<and> \<not> has_substring ''menu-item-'' i
                \<and> \<not> match_builtin (''menu-item-'' @ i))"

text \<open>A header that the handler takes for a built-in tab.\<close>

definition builtin_header :: "li \<Rightarrow> bool" where
  "builtin_header l = (case li_id l of None \<Rightarrow> False | Some x \<Rightarrow> match_builtin x)"

text \<open>The ids that a list of registrations assigns, in order.\<close>

definition registered_ids :: "(string \<times> tab_args) list \<Rightarrow> string list" where
  "registered_ids regs = map (\<lambda>r. effective_id (fst r) (snd r)) regs"

text \<open>An id attribute, if there is one, that is none of the given ids.\<close>

definition other_id :: "string list \<Rightarrow> string option \<Rightarrow> bool" where
  "other_id xs i = (case i of None \<Rightarrow> True | Some x \<Rightarrow> x \<notin> set xs)"

text \<open>An element that does not have one of the given ids and holds no element that has
  one; and an element that holds no element that has one.\<close>

definition unused_id :: "string list \<Rightarrow> elem \<Rightarrow> bool" where
  "unused_id xs e = list_all (other_id xs) (e_id e # map i_id (e_inner e))"

definition unused_inside :: "string list \<Rightarrow> elem \<Rightarrow> bool" where
  "unused_inside xs e = list_all (other_id xs) (map i_id (e_inner e))"

text \<open>The panels and the headers that a list of registrations creates, in order.\<close>

definition registered_panels :: "(string \<times> tab_args) list \<Rightarrow> elem list" where
  "registered_panels regs = map (\<lambda>r. new_tab_content (fst r) (snd r)) regs"

definition registered_headers :: "(string \<times> tab_args) list \<Rightarrow> li list" where
  "registered_headers regs = map (\<lambda>r. new_tab (fst r) (snd r)) regs"

text \<open>What keeps a page within the page model: a header holds no \<^verbatim>\<open>li\<close> element, and
  neither a header nor a panel holds an element that the selector of the tab row selects,
  a \<^verbatim>\<open>ul\<close> of class \<^verbatim>\<open>wysiwyg-tabs\<close>.\<close>

definition is_li :: "inner \<Rightarrow> bool" where
  "is_li i = (i_tag i = ''li'')"

definition is_tab_row :: "inner \<Rightarrow> bool" where
  "is_tab_row i = (i_tag i = ''ul'' \<and> ''wysiwyg-tabs'' \<in> set (i_classes i))"

definition simple_header :: "li \<Rightarrow> bool" where
  "simple_header l = list_all (\<lambda>i. \<not> is_li i \<and> \<not> is_tab_row i) (li_inner l)"

definition simple_panel :: "elem \<Rightarrow> bool" where
  "simple_panel e = list_all (\<lambda>i. \<not> is_tab_row i) (e_inner e)"

text \<open>Readings of a result, for closed statements about a run.\<close>

definition shown_after :: "error + page \<Rightarrow> target \<Rightarrow> bool option" where
  "shown_after r t = (case r of Inl e \<Rightarrow> None | Inr p \<Rightarrow> displayed p t)"

definition editors_after :: "error + page \<Rightarrow> bool option" where
  "editors_after r = (case r of Inl e \<Rightarrow> None | Inr p \<Rightarrow> Some (editors_shown p))"

definition effects_after :: "error + page \<Rightarrow> effect list option" where
  "effects_after r = (case r of Inl e \<Rightarrow> None | Inr p \<Rightarrow> Some (effects p))"

section \<open>Example pages\<close>

text \<open>An editor with the two native tabs, and the two tabs of the specification's
  end-to-end example, given ids and callbacks. Their contents are one paragraph.\<close>

definition p_elem :: "string option \<Rightarrow> inner" where
  "p_elem i = \<lparr>i_tag = ''p'', i_classes = [], i_id = i, i_shown = True\<rparr>"

definition bbcode_tab :: li where
  "bbcode_tab = \<lparr>li_id = Some ''menu-item-bbcode'', li_title = ''BBCode'',
                  li_active = True, li_shown = True, li_click = [],
                  li_inner = [anchor]\<rparr>"

definition visual_tab :: li where
  "visual_tab = \<lparr>li_id = Some ''menu-item-visual'', li_title = ''Preview'',
                  li_active = False, li_shown = True, li_click = [],
                  li_inner = [anchor]\<rparr>"

definition editor_page :: page where
  "editor_page = \<lparr>before_tabs = [], wysiwyg_tabs = Some [bbcode_tab, visual_tab],
                   after_tabs = [], editors_shown = True, effects = [],
                   tabs_id = None, tabs_shown = True\<rparr>"

definition foo_args :: tab_args where
  "foo_args = \<lparr>arg_title = Some (''Foo'', []),
                arg_content = Some (''<p>1</p>'', [p_elem None]), arg_id = Some ''foo'',
                arg_css = None,
                arg_events = Some \<lparr>ev_show = Some ''foo_show'', ev_hide = Some ''foo_hide'',
                                    ev_context = None\<rparr>\<rparr>"

definition bar_args :: tab_args where
  "bar_args = \<lparr>arg_title = Some (''Bar'', []),
                arg_content = Some (''<p>2</p>'', [p_elem None]), arg_id = Some ''bar'',
                arg_css = None,
                arg_events = Some \<lparr>ev_show = Some ''bar_show'', ev_hide = Some ''bar_hide'',
                                    ev_context = Some ''bar_context''\<rparr>\<rparr>"

definition no_engine :: engine where
  "no_engine sel p = None"

text \<open>A store with the built-in prototypes, cut down to a few properties, and the
  platform's data: \<^verbatim>\<open>proboards\<close> at address 10, its \<^verbatim>\<open>dataHash\<close> at 9 and the page data
  at 7. \<^verbatim>\<open>Object.prototype\<close> is at address 0, and its \<^verbatim>\<open>constructor\<close>, the function
  \<^verbatim>\<open>Object\<close>, at 2.\<close>

definition browser :: realm where
  "browser =
     \<lparr>objects =
        [(0, \<lparr>o_props = [(''constructor'', Ref 2), (''toString'', Ref 3)], o_proto = None\<rparr>),
         (1, \<lparr>o_props = [], o_proto = Some 0\<rparr>),
         (2, \<lparr>o_props = [(''name'', String ''Object'')], o_proto = Some 1\<rparr>),
         (3, \<lparr>o_props = [(''name'', String ''toString'')], o_proto = Some 1\<rparr>),
         (4, \<lparr>o_props = [(''charAt'', Ref 3)], o_proto = Some 0\<rparr>),
         (5, \<lparr>o_props = [], o_proto = Some 0\<rparr>),
         (6, \<lparr>o_props = [], o_proto = Some 0\<rparr>),
         (7, \<lparr>o_props = [(''id'', Number 7), (''member'', Ref 8), (''draft'', Undefined)],
              o_proto = Some 0\<rparr>),
         (8, \<lparr>o_props = [(''name'', String ''admin'')], o_proto = Some 0\<rparr>),
         (9, \<lparr>o_props = [(''page'', Ref 7)], o_proto = Some 0\<rparr>),
         (10, \<lparr>o_props = [(''dataHash'', Ref 9)], o_proto = Some 0\<rparr>),
         (11, \<lparr>o_props = [(''page'', String ''abc'')], o_proto = Some 0\<rparr>),
         (12, \<lparr>o_props = [(''dataHash'', Ref 11)], o_proto = Some 0\<rparr>)],
      string_prototype = 4, number_prototype = 5, boolean_prototype = 6\<rparr>"

definition platform :: jsval where
  "platform = Ref 10"

definition anonymous_tab :: li where
  "anonymous_tab = \<lparr>li_id = None, li_title = ''Extra'', li_active = False, li_shown = True,
                     li_click = [], li_inner = [anchor]\<rparr>"

definition anonymous_page :: page where
  "anonymous_page = snd (bbc_tab ''1478000000000'' foo_args
      (editor_page\<lparr>wysiwyg_tabs := Some [bbcode_tab, anonymous_tab]\<rparr>))"

definition two_tabs :: page where
  "two_tabs = register_tabs [(''1478000000000'', foo_args), (''1478000000001'', bar_args)] editor_page"

definition foo_closure :: closure where
  "foo_closure = \<lparr>cl_tab = InRow 2, cl_tab_content = InBefore 0, cl_events = arg_events foo_args\<rparr>"

definition bar_closure :: closure where
  "bar_closure = \<lparr>cl_tab = InRow 3, cl_tab_content = InBefore 1, cl_events = arg_events bar_args\<rparr>"

definition gone_tab :: li where
  "gone_tab = \<lparr>li_id = Some ''menu-item-gone'', li_title = ''Gone'', li_active = False,
                li_shown = True, li_click = [], li_inner = [anchor]\<rparr>"

definition gone_page :: page where
  "gone_page = editor_page\<lparr>wysiwyg_tabs := Some [bbcode_tab, visual_tab, gone_tab]\<rparr>"

text \<open>A tab registered under an id that contains \<^verbatim>\<open>visual\<close>.\<close>

definition visuals_args :: tab_args where
  "visuals_args = \<lparr>arg_title = Some (''Visual notes'', []),
                    arg_content = Some (''<p>notes</p>'', [p_elem None]),
                    arg_id = Some ''visuals'', arg_css = None,
                    arg_events = Some \<lparr>ev_show = None, ev_hide = None, ev_context = None\<rparr>\<rparr>"

definition visuals_page :: page where
  "visuals_page = snd (bbc_tab ''1478000000000'' visuals_args editor_page)"

text \<open>A tab registered under an id that contains the separator \<^verbatim>\<open>menu-item-\<close>.\<close>

definition notes_args :: tab_args where
  "notes_args = \<lparr>arg_title = Some (''Notes'', []),
                  arg_content = Some (''<p>notes</p>'', [p_elem None]),
                  arg_id = Some ''notes-menu-item-1'', arg_css = None,
                  arg_events = Some \<lparr>ev_show = None, ev_hide = None, ev_context = None\<rparr>\<rparr>"

definition notes_page :: page where
  "notes_page = snd (bbc_tab ''1478000000000'' notes_args editor_page)"

text \<open>A first tab whose content holds an element with the id of the second tab.\<close>

definition nested_args :: tab_args where
  "nested_args = \<lparr>arg_title = Some (''Foo'', []),
                   arg_content = Some (''<p id=bar>1</p>'', [p_elem (Some ''bar'')]),
                   arg_id = Some ''foo'', arg_css = None,
                   arg_events = Some \<lparr>ev_show = Some ''foo_show'', ev_hide = Some ''foo_hide'',
                                       ev_context = None\<rparr>\<rparr>"

definition nested_page :: page where
  "nested_page = register_tabs [(''1478000000000'', nested_args), (''1478000000001'', bar_args)] editor_page"

section \<open>Lemmas\<close>

lemmas example_defs = bbcode_tab_def visual_tab_def editor_page_def foo_args_def bar_args_def
  no_engine_def

lemmas string_defs = match_builtin_def to_lower_def upper_case_def lower_case_def digit_chars_def
  selector_of_def split_def is_id_selector_def name_char_def

subsection \<open>Lists and places\<close>

lemma nth_opt_map_at:
  "nth_opt (map_at n f xs) m = (if m = n then map_option f (nth_opt xs m) else nth_opt xs m)"
proof (induction n f xs arbitrary: m rule: map_at.induct)
  case (1 n f)
  then show ?case by simp
next
  case (2 f x xs)
  then show ?case by (cases m) simp_all
next
  case (3 n f x xs)
  then show ?case by (cases m) simp_all
qed

lemma length_map_at [simp]: "length (map_at n f xs) = length xs"
  by (induction n f xs rule: map_at.induct) simp_all

lemma map_map_at:
  "(\<And>x. g (f x) = g x) \<Longrightarrow> map g (map_at n f xs) = map g xs"
  by (induction n f xs rule: map_at.induct) simp_all

lemma nth_opt_Some_iff: "nth_opt xs n = Some x \<longleftrightarrow> n < length xs \<and> xs ! n = x"
proof (induction xs n rule: nth_opt.induct)
  case (1 n)
  then show ?case by simp
next
  case (2 x xs)
  then show ?case by auto
next
  case (3 x xs n)
  then show ?case by simp
qed

lemma nth_opt_in_set: "nth_opt xs n = Some x \<Longrightarrow> x \<in> set xs"
  by (auto simp: nth_opt_Some_iff)

lemma row_simps [simp]:
  "row (p\<lparr>effects := es\<rparr>) = row p"
  "row (p\<lparr>before_tabs := bs\<rparr>) = row p"
  "row (p\<lparr>after_tabs := as\<rparr>) = row p"
  "row (p\<lparr>editors_shown := b\<rparr>) = row p"
  "row (p\<lparr>tabs_shown := b\<rparr>) = row p"
  "row (p\<lparr>wysiwyg_tabs := Some lis\<rparr>) = lis"
  by (simp_all add: row_def)

lemma tabs_ident_simps [simp]:
  "tabs_ident (p\<lparr>effects := es\<rparr>) = tabs_ident p"
  "tabs_ident (p\<lparr>before_tabs := bs\<rparr>) = tabs_ident p"
  "tabs_ident (p\<lparr>after_tabs := as\<rparr>) = tabs_ident p"
  "tabs_ident (p\<lparr>editors_shown := b\<rparr>) = tabs_ident p"
  "tabs_ident (p\<lparr>tabs_shown := b\<rparr>) = tabs_ident p"
  "tabs_ident (p\<lparr>wysiwyg_tabs := map_option f (wysiwyg_tabs p)\<rparr>) = tabs_ident p"
  by (simp_all add: tabs_ident_def split: option.splits)

lemma tabs_ident_row:
  "row p \<noteq> [] \<Longrightarrow> tabs_ident (p\<lparr>wysiwyg_tabs := Some lis\<rparr>) = tabs_ident p"
  by (simp add: tabs_ident_def row_def split: option.splits)

lemma inner_shown_set_inner:
  "inner_shown (map_option (\<lambda>x. set_inner b k (f x)) y) k' =
     (if k' = k then map_option (\<lambda>_. b) (inner_shown (map_option f y) k')
      else inner_shown (map_option f y) k')"
  by (cases y) (simp_all add: inner_shown_def set_inner_def nth_opt_map_at option.map_comp comp_def)

lemma row_map_at:
  "row (p\<lparr>wysiwyg_tabs := map_option (map_at n f) (wysiwyg_tabs p)\<rparr>) = map_at n f (row p)"
  by (cases "wysiwyg_tabs p") (simp_all add: row_def)

lemma displayed_set_shown:
  "displayed (set_shown b t p) t' =
     (if t' = t then map_option (\<lambda>_. b) (displayed p t') else displayed p t')"
  by (cases t; cases t')
     (simp_all add: displayed_def set_shown_def nth_opt_map_at option.map_comp comp_def row_map_at
        inner_shown_set_inner split: option.splits)

lemma displayed_fold_set_shown:
  "displayed (fold (set_shown b) ts p) t =
     (if t \<in> set ts then map_option (\<lambda>_. b) (displayed p t) else displayed p t)"
proof (induction ts arbitrary: p)
  case Nil
  then show ?case by simp
next
  case (Cons a ts)
  then show ?case
    by (simp add: displayed_set_shown option.map_comp comp_def)
qed

lemma displayed_emit [simp]: "displayed (emit e p) t = displayed p t"
  by (cases t) (simp_all add: displayed_def emit_def split: option.splits)


lemma nth_opt_map: "nth_opt (map f xs) n = map_option f (nth_opt xs n)"
  by (induction xs n rule: nth_opt.induct) simp_all

lemma map_upt_Suc: "map f [0..<Suc n] = f 0 # map (\<lambda>j. f (Suc j)) [0..<n]"
proof -
  have "[0..<Suc n] = 0 # map Suc [0..<n]"
    by (simp add: upt_conv_Cons map_Suc_upt del: upt_Suc)
  then show ?thesis by (simp add: comp_def del: upt_Suc)
qed

subsection \<open>What a click leaves alone\<close>

lemma frame_emit [simp]: "frame (emit e p) = frame p"
  by (simp add: frame_def emit_def)

lemma ids_set_shown:
  "elem_ids (e\<lparr>e_shown := b\<rparr>) = elem_ids e"
  "elem_ids (e\<lparr>e_inner := set_inner b k (e_inner e)\<rparr>) = elem_ids e"
  "li_ids (l\<lparr>li_shown := b\<rparr>) = li_ids l"
  "li_ids (l\<lparr>li_inner := set_inner b k (li_inner l)\<rparr>) = li_ids l"
  "li_click (l\<lparr>li_inner := set_inner b k (li_inner l)\<rparr>) = li_click l"
  by (simp_all add: elem_ids_def li_ids_def set_inner_def map_map_at)

lemma frame_set_shown [simp]: "frame (set_shown b t p) = frame p"
  by (cases t) (simp_all add: frame_def set_shown_def map_map_at row_map_at ids_set_shown)

lemma frame_fold_set_shown [simp]: "frame (fold (set_shown b) ts p) = frame p"
  by (induction ts arbitrary: p) simp_all

lemma frame_hide [simp]: "frame (hide ts p) = frame p"
  by (simp add: hide_def)

lemma frame_show_nodes [simp]: "frame (show_nodes ts p) = frame p"
  by (simp add: show_nodes_def)

lemma frame_hide_editors [simp]: "frame (hide_editors p) = frame p"
  by (simp add: hide_editors_def) (simp add: frame_def)

lemma frame_show_editors [simp]: "frame (show_editors p) = frame p"
  by (simp add: show_editors_def) (simp add: frame_def)

lemma frame_call_hide [simp]: "frame (call_hide cl p) = frame p"
  by (simp add: call_hide_def split: option.splits)

lemma frame_call_show [simp]: "frame (call_show cl p) = frame p"
  by (simp add: call_show_def split: option.splits)

lemma frame_row_ids: "frame p = frame q \<Longrightarrow> map li_id (row p) = map li_id (row q)"
proof -
  assume "frame p = frame q"
  then have "map li_ids (row p) = map li_ids (row q)" by (simp add: frame_def)
  then have "map fst (map li_ids (row p)) = map fst (map li_ids (row q))" by simp
  then show ?thesis by (simp add: li_ids_def comp_def)
qed

lemma frame_row_clicks: "frame p = frame q \<Longrightarrow> map li_click (row p) = map li_click (row q)"
  by (simp add: frame_def)

lemma index_where_map: "index_where P (map f xs) = index_where (\<lambda>x. P (f x)) xs"
  by (induction xs) simp_all

lemma getElementById_frame:
  assumes "frame p = frame q"
  shows "getElementById x p = getElementById x q"
proof -
  from assms have b: "map elem_ids (before_tabs p) = map elem_ids (before_tabs q)"
    and t: "tabs_ident p = tabs_ident q"
    and r: "map li_ids (row p) = map li_ids (row q)"
    and a: "map elem_ids (after_tabs p) = map elem_ids (after_tabs q)"
    by (simp_all add: frame_def)
  show ?thesis
    unfolding getElementById_def a b r t ..
qed

lemma jq_frame:
  "frame p = frame q \<Longrightarrow> sel = [] \<or> is_id_selector sel \<Longrightarrow> jq eng sel p = jq eng sel q"
  by (auto simp: jq_def getElementById_frame [of p q])

lemma getElementById_effects [simp]: "getElementById x (p\<lparr>effects := es\<rparr>) = getElementById x p"
  by (rule getElementById_frame) (simp add: frame_def)

lemma jq_effects [simp]: "jq eng sel (p\<lparr>effects := es\<rparr>) = jq eng sel p"
  by (simp add: jq_def)

lemma jq_emit [simp]: "jq eng sel (emit e p) = jq eng sel p"
  by (simp add: emit_def)

lemma jq_call_hide [simp]: "jq eng sel (call_hide cl p) = jq eng sel p"
  by (simp add: call_hide_def split: option.splits)

lemma jq_call_show [simp]: "jq eng sel (call_show cl p) = jq eng sel p"
  by (simp add: call_show_def split: option.splits)

text \<open>The second evaluation of \<^verbatim>\<open>$(selector)\<close> gives what the first one gave: between the
  two only a callback is called.\<close>

lemma each_li_eq:
  "each_li eng cl active i p =
     (case i of
        None \<Rightarrow> Inl TypeError
      | Some x \<Rightarrow>
         if match_builtin x then Inr (hide_editors p)
         else if active = Some x then Inr p
         else (case jq eng (selector_of x) p of
                 Inl e \<Rightarrow> Inl e
               | Inr ts \<Rightarrow> if ts = [] then Inr p else Inr (hide ts (call_hide cl p))))"
  by (simp add: each_li_def Let_def split: option.splits sum.splits)

lemma show_active_eq:
  "show_active eng cl active p =
     (case active of
        None \<Rightarrow> Inl TypeError
      | Some x \<Rightarrow>
         if match_builtin x then Inr (show_editors p)
         else (case jq eng (selector_of x) p of
                 Inl e \<Rightarrow> Inl e
               | Inr ts \<Rightarrow> if ts = [] then Inr p else Inr (show_nodes ts (call_show cl p))))"
  by (simp add: show_active_def Let_def split: option.splits sum.splits)

lemma index_where_Some: "index_where P xs = Some n \<Longrightarrow> \<exists>x. nth_opt xs n = Some x"
proof (induction xs arbitrary: n)
  case Nil
  then show ?case by simp
next
  case (Cons a xs)
  then show ?case by (cases "P a") auto
qed

lemma shift_eq:
  "shift w = Self n \<longleftrightarrow> (\<exists>m. w = Self m \<and> n = Suc m)"
  "shift w = Within n k \<longleftrightarrow> (\<exists>m. w = Within m k \<and> n = Suc m)"
  by (cases w; auto)+

lemma search_Self: "search x es = Some (Self n) \<Longrightarrow> \<exists>e. nth_opt es n = Some e"
proof (induction es arbitrary: n)
  case Nil
  then show ?case by simp
next
  case (Cons e es)
  show ?case
  proof (cases n)
    case 0
    then show ?thesis by simp
  next
    case (Suc m)
    with Cons.prems have "search x es = Some (Self m)"
      by (auto simp: shift_eq split: if_splits option.splits)
    from Cons.IH [OF this] Suc show ?thesis by simp
  qed
qed

lemma search_Within:
  "search x es = Some (Within n k) \<Longrightarrow> \<exists>e i. nth_opt es n = Some e \<and> nth_opt (snd e) k = Some i"
proof (induction es arbitrary: n)
  case Nil
  then show ?case by simp
next
  case (Cons e es)
  show ?case
  proof (cases n)
    case 0
    with Cons.prems have "index_where (\<lambda>i. i = Some x) (snd e) = Some k"
      by (auto simp: shift_eq split: if_splits option.splits)
    from index_where_Some [OF this] 0 show ?thesis by simp
  next
    case (Suc m)
    with Cons.prems have "search x es = Some (Within m k)"
      by (auto simp: shift_eq split: if_splits option.splits)
    from Cons.IH [OF this] Suc show ?thesis by simp
  qed
qed

lemma search_elems_displayed:
  assumes "search x (map elem_ids es) = Some w"
  shows "case w of
           Self n \<Rightarrow> \<exists>b. map_option e_shown (nth_opt es n) = Some b
         | Within n k \<Rightarrow> \<exists>b. inner_shown (map_option e_inner (nth_opt es n)) k = Some b"
proof (cases w)
  case (Self n)
  with search_Self [of x "map elem_ids es" n] assms show ?thesis
    by (auto simp: nth_opt_map)
next
  case (Within n k)
  with search_Within [of x "map elem_ids es" n k] assms show ?thesis
    by (auto simp: nth_opt_map elem_ids_def inner_shown_def)
qed

lemma search_lis_displayed:
  assumes "search x (map li_ids ls) = Some w"
  shows "case w of
           Self n \<Rightarrow> \<exists>b. map_option li_shown (nth_opt ls n) = Some b
         | Within n k \<Rightarrow> \<exists>b. inner_shown (map_option li_inner (nth_opt ls n)) k = Some b"
proof (cases w)
  case (Self n)
  with search_Self [of x "map li_ids ls" n] assms show ?thesis
    by (auto simp: nth_opt_map)
next
  case (Within n k)
  with search_Within [of x "map li_ids ls" n k] assms show ?thesis
    by (auto simp: nth_opt_map li_ids_def inner_shown_def)
qed

lemma getElementById_displayed:
  assumes "getElementById x p = Some t"
  shows "\<exists>b. displayed p t = Some b"
proof (cases "search x (map elem_ids (before_tabs p))")
  case (Some w)
  from search_elems_displayed [OF Some] Some assms show ?thesis
    by (cases w) (auto simp: getElementById_def displayed_def)
next
  case None
  note b = None
  show ?thesis
  proof (cases "tabs_ident p = Some x")
    case True
    with b assms have "t = TheRow" by (simp add: getElementById_def)
    with True show ?thesis
      by (auto simp: displayed_def tabs_ident_def split: option.splits)
  next
    case False
    note i = False
    show ?thesis
    proof (cases "search x (map li_ids (row p))")
      case (Some w)
      from search_lis_displayed [OF Some] Some b i assms show ?thesis
        by (cases w) (auto simp: getElementById_def displayed_def)
    next
      case None
      note r = None
      show ?thesis
      proof (cases "search x (map elem_ids (after_tabs p))")
        case None
        with b i r assms show ?thesis by (simp add: getElementById_def)
      next
        case (Some w)
        from search_elems_displayed [OF Some] Some b i r assms show ?thesis
          by (cases w) (auto simp: getElementById_def displayed_def)
      qed
    qed
  qed
qed


subsection \<open>Effects and the editor surface\<close>

lemma effects_emit [simp]: "effects (emit e p) = effects p @ [e]"
  by (simp add: emit_def)

lemma effects_set_shown [simp]: "effects (set_shown b t p) = effects p"
  by (cases t) (simp_all add: set_shown_def)

lemma effects_fold_set_shown [simp]: "effects (fold (set_shown b) ts p) = effects p"
  by (induction ts arbitrary: p) simp_all

lemma editors_emit [simp]: "editors_shown (emit e p) = editors_shown p"
  by (simp add: emit_def)

lemma editors_set_shown [simp]: "editors_shown (set_shown b t p) = editors_shown p"
  by (cases t) (simp_all add: set_shown_def)

lemma editors_fold_set_shown [simp]: "editors_shown (fold (set_shown b) ts p) = editors_shown p"
  by (induction ts arbitrary: p) simp_all

lemma editors_call_hide [simp]: "editors_shown (call_hide cl p) = editors_shown p"
  by (simp add: call_hide_def split: option.splits)

lemma editors_call_show [simp]: "editors_shown (call_show cl p) = editors_shown p"
  by (simp add: call_show_def split: option.splits)

lemma displayed_call_hide [simp]: "displayed (call_hide cl p) t = displayed p t"
  by (simp add: call_hide_def split: option.splits)

lemma displayed_call_show [simp]: "displayed (call_show cl p) t = displayed p t"
  by (simp add: call_show_def split: option.splits)

lemma displayed_editors [simp]: "displayed (p\<lparr>editors_shown := b\<rparr>) t = displayed p t"
  by (cases t) (simp_all add: displayed_def split: option.splits)

lemma displayed_hide_editors [simp]: "displayed (hide_editors p) t = displayed p t"
  by (simp add: hide_editors_def)

lemma displayed_show_editors [simp]: "displayed (show_editors p) t = displayed p t"
  by (simp add: show_editors_def)

lemma displayed_hide:
  "displayed (hide ts p) t =
     (if t \<in> set ts then map_option (\<lambda>_. False) (displayed p t) else displayed p t)"
  by (simp add: hide_def displayed_fold_set_shown)

lemma displayed_show_nodes:
  "displayed (show_nodes ts p) t =
     (if t \<in> set ts then map_option (\<lambda>_. True) (displayed p t) else displayed p t)"
  by (simp add: show_nodes_def displayed_fold_set_shown)

lemma each_loop_append:
  "each_loop eng cl a (xs @ ys) p =
     (case each_loop eng cl a xs p of Inl e \<Rightarrow> Inl e | Inr q \<Rightarrow> each_loop eng cl a ys q)"
  by (induction xs arbitrary: p) (simp_all split: sum.splits)

lemma each_li_editors:
  "each_li eng cl a i p = Inr q \<Longrightarrow>
     editors_shown q = (if \<exists>x. i = Some x \<and> match_builtin x then False else editors_shown p)"
  by (auto simp: each_li_eq hide_editors_def hide_def split: option.splits if_splits sum.splits)

lemma each_loop_editors:
  "each_loop eng cl a is p = Inr q \<Longrightarrow>
     editors_shown q = (if \<exists>x. Some x \<in> set is \<and> match_builtin x then False else editors_shown p)"
proof (induction "is" arbitrary: p)
  case Nil
  then show ?case by simp
next
  case (Cons i "is")
  from Cons.prems obtain p1 where s: "each_li eng cl a i p = Inr p1"
    and l: "each_loop eng cl a is p1 = Inr q"
    by (auto split: sum.splits)
  from each_li_editors [OF s] Cons.IH [OF l] show ?case
    by auto
qed

lemma show_active_editors:
  "show_active eng cl (Some x) p = Inr q \<Longrightarrow>
     editors_shown q = (if match_builtin x then True else editors_shown p)"
  by (auto simp: show_active_eq show_editors_def show_nodes_def split: if_splits sum.splits)

lemma ids_mark_active [simp]: "map li_id (mark_active n lis) = map li_id lis"
  by (simp add: mark_active_def map_map_at comp_def)

lemma clicks_mark_active [simp]: "map li_click (mark_active n lis) = map li_click lis"
  by (simp add: mark_active_def map_map_at comp_def)

lemma click_handler_unfold:
  "nth_opt (row p) n = Some this \<Longrightarrow>
   click_handler eng cl n p =
     (case each_loop eng cl (li_id this) (map li_id (row p)) (p\<lparr>wysiwyg_tabs := Some (mark_active n (row p))\<rparr>) of
        Inl e \<Rightarrow> Inl e
      | Inr p2 \<Rightarrow> show_active eng cl (li_id this) p2)"
  by (simp add: click_handler_def Let_def)

subsection \<open>Exceptions\<close>

lemma each_loop_no_id:
  "None \<in> set is \<Longrightarrow> \<exists>e. each_loop eng cl a is p = Inl e"
proof (induction "is" arbitrary: p)
  case Nil
  then show ?case by simp
next
  case (Cons i "is")
  show ?case
  proof (cases "each_li eng cl a i p")
    case (Inl e)
    then show ?thesis by simp
  next
    case (Inr p1)
    then have "i \<noteq> None" by (cases i) (simp_all add: each_li_eq)
    with Cons.prems have "None \<in> set is" by auto
    from Cons.IH [OF this, of p1] Inr show ?thesis by simp
  qed
qed

lemma jq_total_engine:
  assumes "\<forall>sel q. eng sel q \<noteq> None"
  shows "\<exists>ts. jq eng sel p = Inr ts"
proof -
  from assms have "eng sel (p\<lparr>effects := []\<rparr>) \<noteq> None" by blast
  then show ?thesis by (auto simp: jq_def)
qed

lemma each_li_total_engine:
  assumes "\<forall>sel q. eng sel q \<noteq> None" and "each_li eng cl a i p = Inl e"
  shows "e = TypeError"
proof (cases i)
  case None
  with assms(2) show ?thesis by (simp add: each_li_eq)
next
  case (Some x)
  from jq_total_engine [OF assms(1)] obtain ts where "jq eng (selector_of x) p = Inr ts"
    by blast
  with assms(2) Some show ?thesis
    by (simp add: each_li_eq split: if_splits)
qed

lemma each_loop_total_engine:
  assumes "\<forall>sel q. eng sel q \<noteq> None"
  shows "each_loop eng cl a is p = Inl e \<Longrightarrow> e = TypeError"
proof (induction "is" arbitrary: p)
  case Nil
  then show ?case by simp
next
  case (Cons i "is")
  show ?case
  proof (cases "each_li eng cl a i p")
    case (Inl e')
    with Cons.prems have "e' = e" by simp
    with each_li_total_engine [OF assms Inl] show ?thesis by simp
  next
    case (Inr p1)
    with Cons.prems have "each_loop eng cl a is p1 = Inl e" by simp
    then show ?thesis by (rule Cons.IH)
  qed
qed

subsection \<open>Registrations and handlers\<close>

lemma own_calls_append [simp]: "own_calls cl (xs @ ys) = (own_calls cl xs \<and> own_calls cl ys)"
  by (induction cl xs rule: own_calls.induct) simp_all

lemma length_closures [simp]: "length (closures r b regs) = length regs"
  by (induction regs arbitrary: r b) simp_all

lemma bbc_tab_row:
  "wysiwyg_tabs p = Some lis \<Longrightarrow>
   wysiwyg_tabs (snd (bbc_tab now a p)) =
     Some (map (bind_click \<lparr>cl_tab = InRow (length lis), cl_tab_content = InBefore (length (before_tabs p)),
                             cl_events = arg_events a\<rparr>) (lis @ [new_tab now a]))
   \<and> length (before_tabs (snd (bbc_tab now a p))) = Suc (length (before_tabs p))"
  by (simp add: bbc_tab_def Let_def)

lemma register_tabs_clicks:
  "wysiwyg_tabs p = Some lis \<Longrightarrow>
   map li_click (row (register_tabs regs p)) =
     map (\<lambda>l. li_click l @ closures (length lis) (length (before_tabs p)) regs) lis
     @ map (\<lambda>j. drop j (closures (length lis) (length (before_tabs p)) regs)) [0..<length regs]"
proof (induction regs arbitrary: p lis)
  case Nil
  then show ?case by (simp add: row_def)
next
  case (Cons r regs)
  let ?cl = "\<lparr>cl_tab = InRow (length lis), cl_tab_content = InBefore (length (before_tabs p)),
              cl_events = arg_events (snd r)\<rparr>"
  let ?p1 = "snd (bbc_tab (fst r) (snd r) p)"
  let ?lis1 = "map (bind_click ?cl) (lis @ [new_tab (fst r) (snd r)])"
  from bbc_tab_row [OF Cons.prems, of "fst r" "snd r"]
  have w: "wysiwyg_tabs ?p1 = Some ?lis1" and b: "length (before_tabs ?p1) = Suc (length (before_tabs p))"
    by simp_all
  have l: "length ?lis1 = Suc (length lis)" by simp
  from Cons.IH [OF w]
  have "map li_click (row (register_tabs regs ?p1)) =
     map (\<lambda>l. li_click l @ closures (Suc (length lis)) (Suc (length (before_tabs p))) regs) ?lis1
     @ map (\<lambda>j. drop j (closures (Suc (length lis)) (Suc (length (before_tabs p))) regs)) [0..<length regs]"
    by (simp only: l b)
  then show ?case
    by (simp add: map_upt_Suc bind_click_def new_tab_def comp_def del: upt_Suc)
qed

lemma each_li_effects:
  "each_li eng cl a i p = Inr q \<Longrightarrow> \<exists>es. effects q = effects p @ es \<and> own_calls cl es"
  by (auto simp: each_li_eq hide_editors_def hide_def call_hide_def
      split: option.splits if_splits sum.splits)

lemma each_loop_effects:
  "each_loop eng cl a is p = Inr q \<Longrightarrow> \<exists>es. effects q = effects p @ es \<and> own_calls cl es"
proof (induction "is" arbitrary: p)
  case Nil
  then show ?case by simp
next
  case (Cons i "is")
  from Cons.prems obtain p1 where s: "each_li eng cl a i p = Inr p1"
    and l: "each_loop eng cl a is p1 = Inr q"
    by (auto split: sum.splits)
  from each_li_effects [OF s] Cons.IH [OF l] show ?case
    by auto
qed

lemma show_active_effects:
  "show_active eng cl a p = Inr q \<Longrightarrow> \<exists>es. effects q = effects p @ es \<and> own_calls cl es"
  by (auto simp: show_active_eq show_editors_def show_nodes_def call_show_def
      split: option.splits if_splits sum.splits)

lemma click_handler_effects:
  assumes "click_handler eng cl n p = Inr q"
  shows "\<exists>es. effects q = effects p @ es \<and> own_calls cl es"
proof (cases "nth_opt (row p) n")
  case None
  with assms show ?thesis by (simp add: click_handler_def)
next
  case (Some this)
  with assms obtain p2 where
    l: "each_loop eng cl (li_id this) (map li_id (row p)) (p\<lparr>wysiwyg_tabs := Some (mark_active n (row p))\<rparr>) = Inr p2"
    and s: "show_active eng cl (li_id this) p2 = Inr q"
    by (auto simp: click_handler_unfold split: sum.splits)
  from each_loop_effects [OF l] show_active_effects [OF s] show ?thesis
    by auto
qed

lemma two_tabs_row:
  "row two_tabs = [bind_click bar_closure (bind_click foo_closure bbcode_tab), bind_click bar_closure (bind_click foo_closure visual_tab),
     bind_click bar_closure (bind_click foo_closure (new_tab ''1478000000000'' foo_args)), bind_click bar_closure (new_tab ''1478000000001'' bar_args)]"
  by (simp add: two_tabs_def bbc_tab_def editor_page_def row_def Let_def foo_closure_def bar_closure_def eval_nat_numeral)

lemma two_tabs_ids:
  "map li_id (row two_tabs) = [Some ''menu-item-bbcode'', Some ''menu-item-visual'', Some ''menu-item-foo'', Some ''menu-item-bar'']"
  by (simp add: two_tabs_row bind_click_def new_tab_def effective_id_def example_defs)

subsection \<open>Rows of plain ids\<close>

lemma selector_of_empty [simp]: "selector_of [] = []"
  by (simp add: selector_of_def)

lemma plain_selector:
  "plain_id (Some x) \<Longrightarrow> \<not> match_builtin x \<Longrightarrow> selector_of x = [] \<or> is_id_selector (selector_of x)"
  by (auto simp: plain_id_def)

lemma plain_jq_frame:
  "plain_id (Some x) \<Longrightarrow> \<not> match_builtin x \<Longrightarrow> frame p = frame q \<Longrightarrow>
   jq eng (selector_of x) p = jq eng (selector_of x) q"
  by (rule jq_frame) (simp_all add: plain_selector)

lemma plain_jq_ok:
  "plain_id (Some x) \<Longrightarrow> \<not> match_builtin x \<Longrightarrow> \<exists>ts. jq eng (selector_of x) p = Inr ts"
  using plain_selector [of x] by (auto simp: jq_def)

lemma plain_jq_displayed:
  assumes "plain_id (Some x)" and "\<not> match_builtin x"
    and "jq eng (selector_of x) p = Inr ts" and "t \<in> set ts"
  shows "\<exists>b. displayed p t = Some b"
proof -
  from plain_selector [OF assms(1,2)] assms(3,4)
  have "getElementById (tl (selector_of x)) p = Some t"
    by (auto simp: jq_def split: option.splits if_splits)
  then show ?thesis by (rule getElementById_displayed)
qed

lemma each_li_plain:
  assumes "plain_id i"
  shows "\<exists>q. each_li eng cl a i p = Inr q \<and> frame q = frame p"
proof (cases i)
  case None
  with assms show ?thesis by (simp add: plain_id_def)
next
  case (Some x)
  show ?thesis
  proof (cases "match_builtin x")
    case True
    with Some show ?thesis by (simp add: each_li_eq)
  next
    case False
    from plain_jq_ok [of x eng p] assms Some False
    obtain ts where "jq eng (selector_of x) p = Inr ts" by blast
    with Some False show ?thesis by (simp add: each_li_eq)
  qed
qed

lemma each_loop_plain:
  "list_all plain_id is \<Longrightarrow> \<exists>q. each_loop eng cl a is p = Inr q \<and> frame q = frame p"
proof (induction "is" arbitrary: p)
  case Nil
  then show ?case by simp
next
  case (Cons i "is")
  from Cons.prems have i: "plain_id i" and r: "list_all plain_id is" by simp_all
  from each_li_plain [OF i, of eng cl a p]
  obtain p1 where s: "each_li eng cl a i p = Inr p1" and f: "frame p1 = frame p" by blast
  from Cons.IH [OF r, of p1] obtain q where "each_loop eng cl a is p1 = Inr q" "frame q = frame p1"
    by blast
  with s f show ?case by simp
qed

lemma each_li_keeps_hidden:
  "each_li eng cl a i p = Inr q \<Longrightarrow> displayed p t = Some False \<Longrightarrow> displayed q t = Some False"
  by (auto simp: each_li_eq displayed_hide split: option.splits if_splits sum.splits)

lemma each_loop_keeps_hidden:
  "each_loop eng cl a is p = Inr q \<Longrightarrow> displayed p t = Some False \<Longrightarrow> displayed q t = Some False"
proof (induction "is" arbitrary: p)
  case Nil
  then show ?case by simp
next
  case (Cons i "is")
  from Cons.prems(1) obtain p1 where s: "each_li eng cl a i p = Inr p1"
    and l: "each_loop eng cl a is p1 = Inr q"
    by (auto split: sum.splits)
  from each_li_keeps_hidden [OF s Cons.prems(2)] have "displayed p1 t = Some False" .
  with l show ?case by (rule Cons.IH)
qed

lemma each_li_hides:
  assumes "plain_id (Some x)" and "\<not> match_builtin x" and "a \<noteq> Some x"
    and "jq eng (selector_of x) p = Inr ts" and "t \<in> set ts"
    and "each_li eng cl a (Some x) p = Inr q"
  shows "displayed q t = Some False"
proof -
  from plain_jq_displayed [OF assms(1,2,4,5)] obtain b where b: "displayed p t = Some b" by blast
  from assms(5) have "ts \<noteq> []" by auto
  with assms(2,3,4,6) have "q = hide ts (call_hide cl p)"
    by (simp add: each_li_eq)
  with assms(5) b show ?thesis by (simp add: displayed_hide)
qed

lemma each_loop_hides:
  assumes "list_all plain_id is" and "each_loop eng cl a is p = Inr q"
    and "Some x \<in> set is" and "\<not> match_builtin x" and "a \<noteq> Some x"
    and "jq eng (selector_of x) p = Inr ts" and "t \<in> set ts"
  shows "displayed q t = Some False"
  using assms(1,2,3,6)
proof (induction "is" arbitrary: p)
  case Nil
  then show ?case by simp
next
  case (Cons i "is")
  from Cons.prems(1) have i: "plain_id i" and r: "list_all plain_id is" by simp_all
  from Cons.prems(2) obtain p1 where s: "each_li eng cl a i p = Inr p1"
    and l: "each_loop eng cl a is p1 = Inr q"
    by (auto split: sum.splits)
  from each_li_plain [OF i, of eng cl a p] s have f: "frame p1 = frame p" by simp
  show ?case
  proof (cases "i = Some x")
    case True
    with i have px: "plain_id (Some x)" by simp
    from each_li_hides [OF px assms(4,5) Cons.prems(4) assms(7)] s True
    have "displayed p1 t = Some False" by simp
    with l show ?thesis by (rule each_loop_keeps_hidden)
  next
    case False
    with Cons.prems(3) have m: "Some x \<in> set is" by simp
    with r have px: "plain_id (Some x)" by (simp add: list_all_iff)
    from plain_jq_frame [OF px assms(4) f, of eng] Cons.prems(4)
    have "jq eng (selector_of x) p1 = Inr ts" by simp
    from Cons.IH [OF r l m this] show ?thesis .
  qed
qed

lemma show_active_plain:
  assumes "plain_id (Some xa)"
  shows "\<exists>q. show_active eng cl (Some xa) p = Inr q \<and> frame q = frame p
           \<and> (match_builtin xa \<longrightarrow> editors_shown q \<and> (\<forall>t. displayed q t = displayed p t))
           \<and> (\<not> match_builtin xa \<longrightarrow>
                (\<exists>ts. jq eng (selector_of xa) p = Inr ts
                   \<and> (\<forall>t. displayed q t =
                        (if t \<in> set ts then map_option (\<lambda>_. True) (displayed p t) else displayed p t))))"
proof (cases "match_builtin xa")
  case True
  then show ?thesis by (simp add: show_active_eq) (simp add: show_editors_def)
next
  case False
  from plain_jq_ok [OF assms False, of eng p]
  obtain ts where j: "jq eng (selector_of xa) p = Inr ts" by blast
  show ?thesis
  proof (cases "ts = []")
    case True
    with False j show ?thesis by (simp add: show_active_eq)
  next
    case n: False
    with False j show ?thesis by (simp add: show_active_eq displayed_show_nodes)
  qed
qed


lemma li_ids_mark_active [simp]: "map li_ids (mark_active n lis) = map li_ids lis"
  by (simp add: mark_active_def map_map_at comp_def li_ids_def)

lemma frame_mark_active:
  "nth_opt (row p) n = Some this \<Longrightarrow>
   frame (p\<lparr>wysiwyg_tabs := Some (mark_active n (row p))\<rparr>) = frame p"
  by (cases "row p") (simp_all add: frame_def tabs_ident_row)

lemma nth_opt_ids:
  "nth_opt (row p) n = Some this \<Longrightarrow> nth_opt (map li_id (row p)) n = Some (li_id this)"
  by (simp add: nth_opt_map)

lemma click_handler_plain:
  assumes "nth_opt (map li_id (row p)) n = Some (Some xa)"
    and "list_all plain_id (map li_id (row p))"
  shows "\<exists>q. click_handler eng cl n p = Inr q \<and> frame q = frame p \<and> click_post eng p xa q"
proof -
  let ?p1 = "p\<lparr>wysiwyg_tabs := Some (mark_active n (row p))\<rparr>"
  from assms(1) obtain this where t: "nth_opt (row p) n = Some this" and i: "li_id this = Some xa"
    by (auto simp: nth_opt_map)
  from assms(1) have "Some xa \<in> set (map li_id (row p))"
    by (rule nth_opt_in_set)
  with assms(2) have pa: "plain_id (Some xa)"
    by (auto simp: list_all_iff)
  from t have f1: "frame ?p1 = frame p" by (rule frame_mark_active)
  from each_loop_plain [OF assms(2), of eng cl "Some xa" ?p1]
  obtain p2 where l: "each_loop eng cl (Some xa) (map li_id (row p)) ?p1 = Inr p2"
    and f2': "frame p2 = frame ?p1" by blast
  from f2' f1 have f2: "frame p2 = frame p" by (rule trans)
  from show_active_plain [OF pa, of eng cl p2]
  obtain q where s: "show_active eng cl (Some xa) p2 = Inr q" and f3: "frame q = frame p2"
    and b: "match_builtin xa \<longrightarrow> editors_shown q \<and> (\<forall>t. displayed q t = displayed p2 t)"
    and c: "\<not> match_builtin xa \<longrightarrow>
                (\<exists>ts. jq eng (selector_of xa) p2 = Inr ts
                   \<and> (\<forall>t. displayed q t =
                        (if t \<in> set ts then map_option (\<lambda>_. True) (displayed p2 t) else displayed p2 t)))"
    by blast
  have r: "click_handler eng cl n p = Inr q"
    using t i l s by (simp add: click_handler_unfold)
  have d: "displayed q t = Some (\<not> match_builtin xa \<and> (\<exists>tsa. jq eng (selector_of xa) p = Inr tsa \<and> t \<in> set tsa))"
    if x: "Some x \<in> set (map li_id (row p))" and nb: "\<not> match_builtin x"
      and j: "jq eng (selector_of x) p = Inr ts" and m: "t \<in> set ts" for x ts t
  proof -
    from x assms(2) have px: "plain_id (Some x)" by (auto simp: list_all_iff)
    from plain_jq_frame [OF px nb f1, of eng] j have j1: "jq eng (selector_of x) ?p1 = Inr ts"
      by simp
    from plain_jq_frame [OF px nb f2, of eng] j have j2: "jq eng (selector_of x) p2 = Inr ts"
      by simp
    from plain_jq_displayed [OF px nb j2 m] obtain d where d: "displayed p2 t = Some d" by blast
    show ?thesis
    proof (cases "match_builtin xa")
      case True
      with nb have "Some xa \<noteq> Some x" by auto
      from each_loop_hides [OF assms(2) l x nb this j1 m] have "displayed p2 t = Some False" .
      with True b show ?thesis by simp
    next
      case False
      with c obtain tsa where ja2: "jq eng (selector_of xa) p2 = Inr tsa"
        and e: "displayed q t = (if t \<in> set tsa then map_option (\<lambda>_. True) (displayed p2 t) else displayed p2 t)"
        by blast
      from plain_jq_frame [OF pa False f2, of eng] ja2 have ja: "jq eng (selector_of xa) p = Inr tsa"
        by simp
      show ?thesis
      proof (cases "t \<in> set tsa")
        case True
        with e d False ja show ?thesis by simp
      next
        case nt: False
        with j m ja have "Some xa \<noteq> Some x" by auto
        from each_loop_hides [OF assms(2) l x nb this j1 m] have "displayed p2 t = Some False" .
        with e nt False ja show ?thesis by simp
      qed
    qed
  qed
  have "click_post eng p xa q"
    unfolding click_post_def using b d by blast
  with r f3 f2 show ?thesis by simp
qed

lemma click_post_frame:
  assumes "frame p = frame p'" and "list_all plain_id (map li_id (row p))"
    and "Some xa \<in> set (map li_id (row p))"
    and "click_post eng p' xa q"
  shows "click_post eng p xa q"
proof -
  from assms(1) [symmetric] have ids: "map li_id (row p') = map li_id (row p)"
    by (rule frame_row_ids)
  have j: "jq eng (selector_of x) p' = jq eng (selector_of x) p"
    if "Some x \<in> set (map li_id (row p))" and "\<not> match_builtin x" for x
  proof -
    from that(1) assms(2) have "plain_id (Some x)" by (auto simp: list_all_iff)
    from plain_jq_frame [OF this that(2) assms(1), of eng] show ?thesis by simp
  qed
  from assms(4) have e: "match_builtin xa \<longrightarrow> editors_shown q"
    unfolding click_post_def by blast
  from assms(4) have a: "displayed q t =
      Some (\<not> match_builtin xa \<and> (\<exists>tsa. jq eng (selector_of xa) p' = Inr tsa \<and> t \<in> set tsa))"
    if "Some x \<in> set (map li_id (row p'))" and "\<not> match_builtin x"
      and "jq eng (selector_of x) p' = Inr ts" and "t \<in> set ts" for x ts t
    unfolding click_post_def using that by blast
  have k: "(\<not> match_builtin xa \<and> (\<exists>tsa. jq eng (selector_of xa) p' = Inr tsa \<and> t \<in> set tsa))
      = (\<not> match_builtin xa \<and> (\<exists>tsa. jq eng (selector_of xa) p = Inr tsa \<and> t \<in> set tsa))" for t
  proof (cases "match_builtin xa")
    case True
    then show ?thesis by simp
  next
    case False
    from j [OF assms(3) False] show ?thesis by simp
  qed
  have "displayed q t =
      Some (\<not> match_builtin xa \<and> (\<exists>tsa. jq eng (selector_of xa) p = Inr tsa \<and> t \<in> set tsa))"
    if x: "Some x \<in> set (map li_id (row p))" and nb: "\<not> match_builtin x"
      and jx: "jq eng (selector_of x) p = Inr ts" and m: "t \<in> set ts" for x ts t
  proof -
    from x have x': "Some x \<in> set (map li_id (row p'))" by (simp only: ids)
    from j [OF x nb] jx have "jq eng (selector_of x) p' = Inr ts" by simp
    from a [OF x' nb this m] k [of t] show ?thesis by simp
  qed
  with e show ?thesis
    unfolding click_post_def by blast
qed

lemma run_handlers_plain:
  assumes "cls \<noteq> []"
  shows "nth_opt (map li_id (row p)) n = Some (Some xa) \<Longrightarrow> list_all plain_id (map li_id (row p)) \<Longrightarrow>
     \<exists>q. run_handlers eng cls n p = Inr q \<and> frame q = frame p \<and> click_post eng p xa q"
  using assms
proof (induction cls arbitrary: p)
  case Nil
  then show ?case by simp
next
  case (Cons cl cls)
  from click_handler_plain [OF Cons.prems(1,2), of eng cl]
  obtain p1 where h: "click_handler eng cl n p = Inr p1" and f: "frame p1 = frame p"
    and c: "click_post eng p xa p1" by blast
  show ?case
  proof (cases "cls = []")
    case True
    with h f c show ?thesis by simp
  next
    case False
    from f have ids: "map li_id (row p1) = map li_id (row p)" by (rule frame_row_ids)
    from Cons.IH [of p1] Cons.prems(1,2) False ids
    obtain q where r: "run_handlers eng cls n p1 = Inr q" and fq: "frame q = frame p1"
      and cq: "click_post eng p1 xa q" by auto
    from Cons.prems(1) have "Some xa \<in> set (map li_id (row p))" by (rule nth_opt_in_set)
    from click_post_frame [OF f [symmetric] Cons.prems(2) this cq] have "click_post eng p xa q" .
    with h r fq f show ?thesis by simp
  qed
qed

lemma handled_frame: "frame p = frame q \<Longrightarrow> handled p n = handled q n"
proof -
  assume "frame p = frame q"
  then have c: "map li_click (row p) = map li_click (row q)" by (simp add: frame_def)
  have "handled r n = (case nth_opt (map li_click (row r)) n of None \<Rightarrow> False | Some cls \<Rightarrow> cls \<noteq> [])" for r
    by (simp add: handled_def nth_opt_map split: option.splits)
  with c show ?thesis by simp
qed

lemma click_plain:
  assumes "handled p n" and "list_all plain_id (map li_id (row p))"
  shows "\<exists>q xa. click eng n p = Inr q \<and> frame q = frame p
           \<and> nth_opt (map li_id (row p)) n = Some (Some xa) \<and> click_post eng p xa q"
proof -
  from assms(1) obtain this where t: "nth_opt (row p) n = Some this" and c: "li_click this \<noteq> []"
    by (auto simp: handled_def split: option.splits)
  from t have "li_id this \<in> set (map li_id (row p))"
    by (auto dest: nth_opt_in_set)
  with assms(2) have "plain_id (li_id this)" by (auto simp: list_all_iff)
  then obtain xa where i: "li_id this = Some xa"
    by (cases "li_id this") (simp_all add: plain_id_def)
  from t i have n: "nth_opt (map li_id (row p)) n = Some (Some xa)" by (simp add: nth_opt_map)
  from run_handlers_plain [OF c n assms(2), of eng] t n show ?thesis
    by (auto simp: click_def)
qed

lemma clicks_plain:
  assumes "ns \<noteq> []"
  shows "list_all (handled p) ns \<Longrightarrow> list_all plain_id (map li_id (row p)) \<Longrightarrow>
     \<exists>q xa. clicks eng ns p = Inr q \<and> frame q = frame p
           \<and> nth_opt (map li_id (row p)) (last ns) = Some (Some xa) \<and> click_post eng p xa q"
  using assms
proof (induction ns arbitrary: p)
  case Nil
  then show ?case by simp
next
  case (Cons n ns)
  from Cons.prems(1) have hn: "handled p n" and hs: "list_all (handled p) ns" by simp_all
  from click_plain [OF hn Cons.prems(2), of eng]
  obtain p1 xa where k: "click eng n p = Inr p1" and f: "frame p1 = frame p"
    and i: "nth_opt (map li_id (row p)) n = Some (Some xa)" and c: "click_post eng p xa p1"
    by blast
  show ?case
  proof (cases "ns = []")
    case True
    with k f i c show ?thesis by simp
  next
    case False
    from f have ids: "map li_id (row p1) = map li_id (row p)" by (rule frame_row_ids)
    from hs handled_frame [OF f] have hs1: "list_all (handled p1) ns"
      by (simp add: list_all_iff)
    from Cons.IH [OF hs1 _ False, of ] Cons.prems(2) ids
    obtain q xb where r: "clicks eng ns p1 = Inr q" and fq: "frame q = frame p1"
      and ib: "nth_opt (map li_id (row p)) (last ns) = Some (Some xb)" and cq: "click_post eng p1 xb q"
      by auto
    from ib have "Some xb \<in> set (map li_id (row p))" by (rule nth_opt_in_set)
    from click_post_frame [OF f [symmetric] Cons.prems(2) this cq] have "click_post eng p xb q" .
    with k r fq f ib False show ?thesis by simp
  qed
qed

subsection \<open>The headers and panels that a registration creates\<close>

lemma starts_with_append [simp]: "starts_with p (p @ s)"
  by (induction p) simp_all

lemma split_from_no_separator:
  "\<not> has_substring sep s \<Longrightarrow> split_from sep acc s = [rev acc @ s]"
  by (induction s arbitrary: acc) simp_all

lemma split_menu_item:
  assumes "\<not> has_substring ''menu-item-'' i"
  shows "split ''menu-item-'' (''menu-item-'' @ i) = [[], i]"
proof -
  have s: "starts_with ''menu-item-'' (''menu-item-'' @ i)"
    by (rule starts_with_append)
  have "split_from ''menu-item-'' [] (''menu-item-'' @ i)
      = [] # split_from ''menu-item-'' [] (drop (length ''menu-item-'') (''menu-item-'' @ i))"
    using s by simp
  also have "drop (length ''menu-item-'') (''menu-item-'' @ i) = i"
    by simp
  also have "split_from ''menu-item-'' [] i = [i]"
    using assms by (simp add: split_from_no_separator)
  finally show ?thesis by (simp add: split_def)
qed

lemma registered_header_is_plain:
  assumes "i \<noteq> []" and "list_all name_char i" and "\<not> has_substring ''menu-item-'' i"
  shows "selector_of (''menu-item-'' @ i) = CHR ''#'' # i
       \<and> plain_id (Some (''menu-item-'' @ i))"
proof -
  have s: "selector_of (''menu-item-'' @ i) = CHR ''#'' # i"
    using split_menu_item [OF assms(3)] by (simp add: selector_of_def)
  have "is_id_selector (CHR ''#'' # i)"
    using assms(1,2) by (simp add: is_id_selector_def)
  with s show ?thesis by (simp add: plain_id_def)
qed

lemma register_tabs_ids:
  "wysiwyg_tabs p = Some lis \<Longrightarrow>
   map li_id (row (register_tabs regs p)) =
     map li_id lis @ map (\<lambda>i. Some (''menu-item-'' @ i)) (registered_ids regs)
   \<and> map e_id (before_tabs (register_tabs regs p)) =
     map e_id (before_tabs p) @ map Some (registered_ids regs)"
proof (induction regs arbitrary: p lis)
  case Nil
  then show ?case by (simp add: row_def registered_ids_def)
next
  case (Cons r regs)
  let ?cl = "\<lparr>cl_tab = InRow (length lis), cl_tab_content = InBefore (length (before_tabs p)),
              cl_events = arg_events (snd r)\<rparr>"
  let ?p1 = "snd (bbc_tab (fst r) (snd r) p)"
  let ?lis1 = "map (bind_click ?cl) (lis @ [new_tab (fst r) (snd r)])"
  from bbc_tab_row [OF Cons.prems, of "fst r" "snd r"]
  have w: "wysiwyg_tabs ?p1 = Some ?lis1" by simp
  have b: "before_tabs ?p1 = before_tabs p @ [new_tab_content (fst r) (snd r)]"
    using Cons.prems by (simp add: bbc_tab_def Let_def)
  have i: "map li_id ?lis1 = map li_id lis @ [Some (''menu-item-'' @ effective_id (fst r) (snd r))]"
    by (simp add: bind_click_def new_tab_def comp_def)
  have e: "e_id (new_tab_content (fst r) (snd r)) = Some (effective_id (fst r) (snd r))"
    by (simp add: new_tab_content_def)
  have c: "registered_ids (r # regs) = effective_id (fst r) (snd r) # registered_ids regs"
    by (simp add: registered_ids_def)
  note ih = Cons.IH [OF w, unfolded i b]
  from ih show ?case
    by (simp add: c e)
qed

lemma register_tabs_before:
  "wysiwyg_tabs p = Some lis \<Longrightarrow>
   before_tabs (register_tabs regs p) = before_tabs p @ registered_panels regs"
proof (induction regs arbitrary: p lis)
  case Nil
  then show ?case by (simp add: registered_panels_def)
next
  case (Cons r regs)
  let ?p1 = "snd (bbc_tab (fst r) (snd r) p)"
  from bbc_tab_row [OF Cons.prems, of "fst r" "snd r"]
  obtain lis1 where w: "wysiwyg_tabs ?p1 = Some lis1" by simp
  have b: "before_tabs ?p1 = before_tabs p @ [new_tab_content (fst r) (snd r)]"
    using Cons.prems by (simp add: bbc_tab_def Let_def)
  from Cons.IH [OF w] b show ?case
    by (simp add: registered_panels_def)
qed

lemma index_where_none: "(\<And>x. x \<in> set xs \<Longrightarrow> \<not> P x) \<Longrightarrow> index_where P xs = None"
  by (induction xs) simp_all

lemma search_none:
  "(\<And>e. e \<in> set es \<Longrightarrow> fst e \<noteq> Some x \<and> Some x \<notin> set (snd e)) \<Longrightarrow> search x es = None"
proof (induction es)
  case Nil
  then show ?case by simp
next
  case (Cons e es)
  from Cons.prems [of e] have f: "fst e \<noteq> Some x" and n: "Some x \<notin> set (snd e)" by simp_all
  from n have i: "index_where (\<lambda>i. i = Some x) (snd e) = None"
    by (intro index_where_none) auto
  have "search x es = None"
    by (rule Cons.IH) (simp add: Cons.prems)
  with f i show ?case by simp
qed

lemma search_append_Self:
  "search x es = None \<Longrightarrow> search x fs = Some (Self j) \<Longrightarrow>
   search x (es @ fs) = Some (Self (length es + j))"
proof (induction es)
  case Nil
  then show ?case by simp
next
  case (Cons e es)
  from Cons.prems(1) have f: "fst e \<noteq> Some x"
    and i: "index_where (\<lambda>i. i = Some x) (snd e) = None"
    and r: "search x es = None"
    by (auto split: if_splits option.splits)
  from Cons.IH [OF r Cons.prems(2)] f i show ?case by simp
qed

lemma search_distinct:
  "distinct xs \<Longrightarrow> j < length xs \<Longrightarrow> map fst es = map Some xs \<Longrightarrow>
   (\<And>e x. e \<in> set es \<Longrightarrow> x \<in> set xs \<Longrightarrow> Some x \<notin> set (snd e)) \<Longrightarrow>
   search (xs ! j) es = Some (Self j)"
proof (induction es arbitrary: xs j)
  case Nil
  then show ?case by simp
next
  case (Cons e es)
  from Cons.prems(3) obtain y ys where xs: "xs = y # ys" and fe: "fst e = Some y"
    and m: "map fst es = map Some ys"
    by (cases xs) auto
  show ?case
  proof (cases j)
    case 0
    with xs fe show ?thesis by simp
  next
    case (Suc k)
    with Cons.prems(2) xs have k: "k < length ys" by simp
    then have mem: "ys ! k \<in> set ys" by simp
    with Cons.prems(1) xs have ne: "y \<noteq> ys ! k" by auto
    from mem xs have "ys ! k \<in> set xs" by simp
    from Cons.prems(4) [OF _ this, of e] have "Some (ys ! k) \<notin> set (snd e)" by simp
    then have i: "index_where (\<lambda>i. i = Some (ys ! k)) (snd e) = None"
      by (intro index_where_none) auto
    from Cons.prems(1) xs have d: "distinct ys" by simp
    have "search (ys ! k) es = Some (Self k)"
    proof (rule Cons.IH [OF d k m])
      fix e' x assume "e' \<in> set es" "x \<in> set ys"
      then show "Some x \<notin> set (snd e')"
        using Cons.prems(4) [of e' x] xs by simp
    qed
    with fe ne i xs Suc show ?thesis by simp
  qed
qed

lemma other_id_Some: "other_id xs (Some x) \<longleftrightarrow> x \<notin> set xs"
  by (simp add: other_id_def)

lemma registered_panel_place:
  assumes "wysiwyg_tabs p0 = Some lis0"
    and "list_all (unused_id (registered_ids regs)) (before_tabs p0)"
    and "list_all (unused_inside (registered_ids regs)) (registered_panels regs)"
    and "distinct (registered_ids regs)" and "j < length regs"
  shows "getElementById (registered_ids regs ! j) (register_tabs regs p0)
           = Some (InBefore (length (before_tabs p0) + j))"
proof -
  let ?xs = "registered_ids regs"
  let ?i = "?xs ! j"
  let ?p = "register_tabs regs p0"
  let ?old = "map elem_ids (before_tabs p0)"
  let ?new = "map elem_ids (registered_panels regs)"
  from assms(5) have jl: "j < length ?xs" by (simp add: registered_ids_def)
  then have m: "?i \<in> set ?xs" by simp
  have n: "search ?i ?old = None"
  proof (rule search_none)
    fix e assume "e \<in> set ?old"
    then obtain el where el: "el \<in> set (before_tabs p0)" and e: "e = elem_ids el" by auto
    from el assms(2) have u: "unused_id ?xs el" by (simp add: list_all_iff)
    from u have "other_id ?xs (e_id el)" by (simp add: unused_id_def)
    with m have a: "e_id el \<noteq> Some ?i" by (auto simp: other_id_def)
    from u have "\<And>i. i \<in> set (map i_id (e_inner el)) \<Longrightarrow> other_id ?xs i"
      by (auto simp: unused_id_def list_all_iff)
    with m have b: "Some ?i \<notin> set (map i_id (e_inner el))"
      using other_id_Some by blast
    from a b e show "fst e \<noteq> Some ?i \<and> Some ?i \<notin> set (snd e)"
      by (simp add: elem_ids_def)
  qed
  have f: "map fst ?new = map Some ?xs"
    by (simp add: registered_panels_def registered_ids_def elem_ids_def new_tab_content_def comp_def)
  have s: "search ?i ?new = Some (Self j)"
  proof (rule search_distinct [OF assms(4) jl f])
    fix e x assume "e \<in> set ?new" and x: "x \<in> set ?xs"
    then obtain el where el: "el \<in> set (registered_panels regs)" and e: "e = elem_ids el" by auto
    from el assms(3) have "unused_inside ?xs el" by (simp add: list_all_iff)
    then have "\<And>i. i \<in> set (map i_id (e_inner el)) \<Longrightarrow> other_id ?xs i"
      by (auto simp: unused_inside_def list_all_iff)
    with x have "Some x \<notin> set (map i_id (e_inner el))"
      using other_id_Some by blast
    with e show "Some x \<notin> set (snd e)" by (simp add: elem_ids_def)
  qed
  from register_tabs_before [OF assms(1), of regs]
  have "map elem_ids (before_tabs ?p) = ?old @ ?new" by simp
  with search_append_Self [OF n s]
  have "search ?i (map elem_ids (before_tabs ?p)) = Some (Self (length (before_tabs p0) + j))"
    by simp
  then show ?thesis by (simp add: getElementById_def)
qed

lemma registered_selects_panel:
  assumes "wysiwyg_tabs p0 = Some lis0"
    and "list_all (unused_id (registered_ids regs)) (before_tabs p0)"
    and "list_all (unused_inside (registered_ids regs)) (registered_panels regs)"
    and "distinct (registered_ids regs)" and "j < length regs"
    and "list_all good_id (registered_ids regs)"
  shows "jq eng (selector_of (''menu-item-'' @ registered_ids regs ! j)) (register_tabs regs p0)
           = Inr [InBefore (length (before_tabs p0) + j)]"
proof -
  let ?i = "registered_ids regs ! j"
  from assms(5) have "?i \<in> set (registered_ids regs)" by (simp add: registered_ids_def)
  with assms(6) have g: "good_id ?i" by (simp add: list_all_iff)
  then have "?i \<noteq> []" "list_all name_char ?i" "\<not> has_substring ''menu-item-'' ?i"
    by (simp_all add: good_id_def)
  from registered_header_is_plain [OF this]
  have s: "selector_of (''menu-item-'' @ ?i) = CHR ''#'' # ?i"
    and "plain_id (Some (''menu-item-'' @ ?i))" by simp_all
  with g have q: "is_id_selector (CHR ''#'' # ?i)" by (simp add: plain_id_def good_id_def)
  show ?thesis
    unfolding s using registered_panel_place [OF assms(1,2,3,4,5)] q by (simp add: jq_def)
qed


lemma registered_handled:
  assumes "wysiwyg_tabs p0 = Some lis0" and "n < length lis0 + length regs" and "regs \<noteq> []"
  shows "handled (register_tabs regs p0) n"
proof -
  let ?c = "closures (length lis0) (length (before_tabs p0)) regs"
  let ?h = "map (\<lambda>l. li_click l @ ?c) lis0 @ map (\<lambda>j. drop j ?c) [0..<length regs]"
  from register_tabs_clicks [OF assms(1), of regs]
  have c: "map li_click (row (register_tabs regs p0)) = ?h" .
  have l: "length ?c = length regs" by simp
  from assms(3) have ne: "?c \<noteq> []" by (cases regs) simp_all
  have "?h ! n \<noteq> []"
  proof (cases "n < length lis0")
    case True
    with ne show ?thesis by (simp add: nth_append)
  next
    case False
    with assms(2) l show ?thesis by (simp add: nth_append)
  qed
  moreover have "n < length ?h" using assms(2) by simp
  ultimately have "nth_opt ?h n = Some (?h ! n)" "?h ! n \<noteq> []"
    by (simp_all add: nth_opt_Some_iff)
  then show ?thesis
    unfolding c [symmetric] by (auto simp: handled_def nth_opt_map split: option.splits)
qed

subsection \<open>The same click on two pages with the same frame\<close>

lemma call_hide_effects: "\<exists>es. \<forall>p. effects (call_hide cl p) = effects p @ es"
proof (cases "cl_events cl")
  case None
  then show ?thesis by (simp add: call_hide_def)
next
  case (Some ev)
  then show ?thesis by (cases "ev_hide ev") (simp_all add: call_hide_def)
qed

lemma call_show_effects: "\<exists>es. \<forall>p. effects (call_show cl p) = effects p @ es"
proof (cases "cl_events cl")
  case None
  then show ?thesis by (simp add: call_show_def)
next
  case (Some ev)
  then show ?thesis by (cases "ev_show ev") (simp_all add: call_show_def)
qed

lemma each_li_rel:
  assumes "plain_id i" and "frame p = frame q"
  shows "\<exists>p' q' es. each_li eng cl a i p = Inr p' \<and> each_li eng cl a i q = Inr q'
           \<and> effects p' = effects p @ es \<and> effects q' = effects q @ es
           \<and> frame p' = frame p \<and> frame q' = frame q"
proof (cases i)
  case None
  with assms show ?thesis by (simp add: plain_id_def)
next
  case (Some x)
  show ?thesis
  proof (cases "match_builtin x")
    case True
    with Some show ?thesis by (simp add: each_li_eq) (simp add: hide_editors_def)
  next
    case False
    from plain_jq_ok [of x eng p] assms Some False
    obtain ts where j: "jq eng (selector_of x) p = Inr ts" by blast
    from plain_jq_frame [OF _ False assms(2), of eng] assms(1) Some j
    have j': "jq eng (selector_of x) q = Inr ts" by simp
    from call_hide_effects [of cl] obtain es where
      es: "\<And>r. effects (call_hide cl r) = effects r @ es" by blast
    show ?thesis
    proof (cases "a = Some x \<or> ts = []")
      case True
      with Some False j j' show ?thesis by (auto simp: each_li_eq)
    next
      case n: False
      with Some False j j' have "each_li eng cl a i p = Inr (hide ts (call_hide cl p))"
        and "each_li eng cl a i q = Inr (hide ts (call_hide cl q))"
        by (simp_all add: each_li_eq)
      moreover have "effects (hide ts (call_hide cl r)) = effects r @ (es @ [Hide ts])" for r
        by (simp add: hide_def es)
      ultimately show ?thesis by (metis frame_hide frame_call_hide)
    qed
  qed
qed

lemma each_loop_rel:
  "list_all plain_id is \<Longrightarrow> frame p = frame q \<Longrightarrow>
   \<exists>p' q' es. each_loop eng cl a is p = Inr p' \<and> each_loop eng cl a is q = Inr q'
           \<and> effects p' = effects p @ es \<and> effects q' = effects q @ es
           \<and> frame p' = frame p \<and> frame q' = frame q"
proof (induction "is" arbitrary: p q)
  case Nil
  then show ?case by simp
next
  case (Cons i "is")
  from Cons.prems(1) have i: "plain_id i" and r: "list_all plain_id is" by simp_all
  from each_li_rel [OF i Cons.prems(2), of eng cl a]
  obtain p1 q1 es1 where s: "each_li eng cl a i p = Inr p1" "each_li eng cl a i q = Inr q1"
    and e1: "effects p1 = effects p @ es1" "effects q1 = effects q @ es1"
    and f1: "frame p1 = frame p" "frame q1 = frame q"
    by blast
  from f1 Cons.prems(2) have "frame p1 = frame q1" by simp
  from Cons.IH [OF r this]
  obtain p' q' es2 where l: "each_loop eng cl a is p1 = Inr p'" "each_loop eng cl a is q1 = Inr q'"
    and e2: "effects p' = effects p1 @ es2" "effects q' = effects q1 @ es2"
    and f2: "frame p' = frame p1" "frame q' = frame q1"
    by blast
  have "effects p' = effects p @ (es1 @ es2)" "effects q' = effects q @ (es1 @ es2)"
    using e1 e2 by simp_all
  with s l f1 f2 show ?case
    by (metis each_loop.simps(2) sum.simps(6))
qed

lemma show_active_rel:
  assumes "plain_id (Some xa)" and "frame p = frame q"
  shows "\<exists>p' q' es. show_active eng cl (Some xa) p = Inr p' \<and> show_active eng cl (Some xa) q = Inr q'
           \<and> effects p' = effects p @ es \<and> effects q' = effects q @ es
           \<and> frame p' = frame p \<and> frame q' = frame q"
proof (cases "match_builtin xa")
  case True
  then show ?thesis by (simp add: show_active_eq) (simp add: show_editors_def)
next
  case False
  from plain_jq_ok [OF assms(1) False, of eng p]
  obtain ts where j: "jq eng (selector_of xa) p = Inr ts" by blast
  from plain_jq_frame [OF assms(1) False assms(2), of eng] j
  have j': "jq eng (selector_of xa) q = Inr ts" by simp
  from call_show_effects [of cl] obtain es where
    es: "\<And>r. effects (call_show cl r) = effects r @ es" by blast
  show ?thesis
  proof (cases "ts = []")
    case True
    with False j j' show ?thesis by (simp add: show_active_eq)
  next
    case n: False
    with False j j' have "show_active eng cl (Some xa) p = Inr (show_nodes ts (call_show cl p))"
      and "show_active eng cl (Some xa) q = Inr (show_nodes ts (call_show cl q))"
      by (simp_all add: show_active_eq)
    moreover have "effects (show_nodes ts (call_show cl r)) = effects r @ (es @ [Show ts])" for r
      by (simp add: show_nodes_def es)
    ultimately show ?thesis by (metis frame_show_nodes frame_call_show)
  qed
qed

lemma effects_mark_active [simp]:
  "effects (p\<lparr>wysiwyg_tabs := x\<rparr>) = effects p"
  by simp

lemma click_handler_rel:
  assumes "list_all plain_id (map li_id (row p))" and "frame p = frame q"
  shows "\<exists>p' q' es. click_handler eng cl n p = Inr p' \<and> click_handler eng cl n q = Inr q'
           \<and> effects p' = effects p @ es \<and> effects q' = effects q @ es
           \<and> frame p' = frame p \<and> frame q' = frame q"
proof -
  from assms(2) [symmetric] have ids: "map li_id (row q) = map li_id (row p)"
    by (rule frame_row_ids)
  show ?thesis
  proof (cases "nth_opt (map li_id (row p)) n")
    case None
    then have np: "nth_opt (row p) n = None" by (simp add: nth_opt_map)
    from None ids have "nth_opt (map li_id (row q)) n = None" by simp
    then have "nth_opt (row q) n = None" by (simp add: nth_opt_map)
    with np show ?thesis by (simp add: click_handler_def)
  next
    case (Some i)
    then have "i \<in> set (map li_id (row p))" by (rule nth_opt_in_set)
    with assms(1) have pi: "plain_id i" by (auto simp: list_all_iff)
    then obtain xa where xa: "i = Some xa" by (cases i) (simp_all add: plain_id_def)
    from Some xa obtain tp where tp: "nth_opt (row p) n = Some tp" "li_id tp = Some xa"
      by (auto simp: nth_opt_map)
    from Some xa ids have "nth_opt (map li_id (row q)) n = Some (Some xa)" by simp
    then obtain tq where tq: "nth_opt (row q) n = Some tq" "li_id tq = Some xa"
      by (auto simp: nth_opt_map)
    let ?p1 = "p\<lparr>wysiwyg_tabs := Some (mark_active n (row p))\<rparr>"
    let ?q1 = "q\<lparr>wysiwyg_tabs := Some (mark_active n (row q))\<rparr>"
    have f1: "frame ?p1 = frame ?q1"
      using assms(2) frame_mark_active [OF tp(1)] frame_mark_active [OF tq(1)] by simp
    have i1: "map li_id (row ?p1) = map li_id (row p)" by simp
    from each_loop_rel [OF _ f1, of "map li_id (row p)" eng cl "Some xa"] assms(1)
    obtain p2 q2 es1 where l: "each_loop eng cl (Some xa) (map li_id (row p)) ?p1 = Inr p2"
      "each_loop eng cl (Some xa) (map li_id (row p)) ?q1 = Inr q2"
      and e1': "effects p2 = effects ?p1 @ es1" "effects q2 = effects ?q1 @ es1"
      and f2': "frame p2 = frame ?p1" "frame q2 = frame ?q1"
      by blast
    from e1' have e1: "effects p2 = effects p @ es1" "effects q2 = effects q @ es1"
      by simp_all
    from f2' frame_mark_active [OF tp(1)] frame_mark_active [OF tq(1)]
    have f2: "frame p2 = frame p" "frame q2 = frame q"
      by simp_all
    from f2 assms(2) have "frame p2 = frame q2" by simp
    from show_active_rel [OF _ this, of xa eng cl] pi xa
    obtain p' q' es2 where s: "show_active eng cl (Some xa) p2 = Inr p'"
      "show_active eng cl (Some xa) q2 = Inr q'"
      and e2: "effects p' = effects p2 @ es2" "effects q' = effects q2 @ es2"
      and f3: "frame p' = frame p2" "frame q' = frame q2"
      by blast
    have "click_handler eng cl n p = Inr p'" "click_handler eng cl n q = Inr q'"
      using tp tq l s ids by (simp_all add: click_handler_unfold)
    moreover have "effects p' = effects p @ (es1 @ es2)" "effects q' = effects q @ (es1 @ es2)"
      using e1 e2 by simp_all
    ultimately show ?thesis using f2 f3 by metis
  qed
qed

lemma run_handlers_rel:
  "list_all plain_id (map li_id (row p)) \<Longrightarrow> frame p = frame q \<Longrightarrow>
   \<exists>p' q' es. run_handlers eng cls n p = Inr p' \<and> run_handlers eng cls n q = Inr q'
           \<and> effects p' = effects p @ es \<and> effects q' = effects q @ es
           \<and> frame p' = frame p \<and> frame q' = frame q"
proof (induction cls arbitrary: p q)
  case Nil
  then show ?case by simp
next
  case (Cons cl cls)
  from click_handler_rel [OF Cons.prems, of eng cl n]
  obtain p1 q1 es1 where h: "click_handler eng cl n p = Inr p1" "click_handler eng cl n q = Inr q1"
    and e1: "effects p1 = effects p @ es1" "effects q1 = effects q @ es1"
    and f1: "frame p1 = frame p" "frame q1 = frame q"
    by blast
  from f1 Cons.prems(2) have f: "frame p1 = frame q1" by simp
  from frame_row_ids [OF f1(1)] Cons.prems(1) have "list_all plain_id (map li_id (row p1))"
    by simp
  from Cons.IH [OF this f]
  obtain p' q' es2 where r: "run_handlers eng cls n p1 = Inr p'" "run_handlers eng cls n q1 = Inr q'"
    and e2: "effects p' = effects p1 @ es2" "effects q' = effects q1 @ es2"
    and f2: "frame p' = frame p1" "frame q' = frame q1"
    by blast
  have "run_handlers eng (cl # cls) n p = Inr p'" "run_handlers eng (cl # cls) n q = Inr q'"
    using h r by simp_all
  moreover have "effects p' = effects p @ (es1 @ es2)" "effects q' = effects q @ (es1 @ es2)"
    using e1 e2 by simp_all
  ultimately show ?case using f1 f2 by metis
qed

lemma click_rel:
  assumes "list_all plain_id (map li_id (row p))" and "frame p = frame q"
  shows "\<exists>p' q' es. click eng n p = Inr p' \<and> click eng n q = Inr q'
           \<and> effects p' = effects p @ es \<and> effects q' = effects q @ es
           \<and> frame p' = frame p \<and> frame q' = frame q"
proof -
  from assms(2) have c: "map li_click (row q) = map li_click (row p)" by (simp add: frame_def)
  have k: "click eng n r =
     (case nth_opt (map li_click (row r)) n of None \<Rightarrow> Inr r | Some cls \<Rightarrow> run_handlers eng cls n r)" for r
    by (simp add: click_def nth_opt_map split: option.splits)
  show ?thesis
  proof (cases "nth_opt (map li_click (row p)) n")
    case None
    then show ?thesis using c by (simp add: k)
  next
    case (Some cls)
    from run_handlers_rel [OF assms, of eng cls n] Some c show ?thesis
      by (simp add: k)
  qed
qed

lemma call_count_append [simp]: "call_count f (xs @ ys) = call_count f xs + call_count f ys"
  by (induction f xs rule: call_count.induct) simp_all

lemma two_tabs_plain: "list_all plain_id (map li_id (row two_tabs))"
  by (simp add: two_tabs_ids plain_id_def) (simp add: string_defs)

section \<open>The claims\<close>

subsection \<open>C1: the panel of the clicked tab, and no other\<close>

text \<open>
  For any row of plain ids, whoever created its headers: no click on a header with a
  handler raises an exception, and after a sequence of such clicks the nodes that the ids
  of the headers that are not built-in resolve to are hidden, but for the one that the id
  of the header clicked last resolves to, if that header is not built-in.
\<close>

lemma plain_row_clicked_panel_alone:
  assumes "list_all plain_id (map li_id (row p))" and "ns \<noteq> []" and "list_all (handled p) ns"
  shows "\<exists>q xa. clicks eng ns p = Inr q
           \<and> nth_opt (map li_id (row p)) (last ns) = Some (Some xa)
           \<and> (match_builtin xa \<longrightarrow> editors_shown q)
           \<and> (\<forall>x ts t. Some x \<in> set (map li_id (row p)) \<and> \<not> match_builtin x
                  \<and> jq eng (selector_of x) p = Inr ts \<and> t \<in> set ts
                \<longrightarrow> displayed q t =
                      Some (\<not> match_builtin xa \<and> (\<exists>tsa. jq eng (selector_of xa) p = Inr tsa \<and> t \<in> set tsa)))"
proof -
  from clicks_plain [OF assms(2,3,1), of eng]
  obtain q xa where "clicks eng ns p = Inr q"
    and "nth_opt (map li_id (row p)) (last ns) = Some (Some xa)" and "click_post eng p xa q"
    by blast
  then show ?thesis
    unfolding click_post_def by blast
qed

text \<open>
  Claim C1, as amended. Take a page whose tab row holds built-in headers only, and
  register \<open>N \<ge> 1\<close> tabs on it, under ids that are distinct, not empty, made of letters,
  digits, underscores and hyphens, do not contain \<^verbatim>\<open>menu-item-\<close>, give header ids that do
  not match \<^verbatim>\<open>bbcode\<close> or \<^verbatim>\<open>visual\<close>, and are not the id of an element that precedes the
  row, at any depth, nor of an element inside the content of a registered tab; and let
  the registrations keep the page within the page model: no header holds an \<^verbatim>\<open>li\<close> element,
  and no header and no content holds a \<^verbatim>\<open>ul\<close> of class \<^verbatim>\<open>wysiwyg-tabs\<close>. Then for
  every non-empty sequence of clicks on headers of the row no click raises an exception,
  and after the last click (so after each click, every prefix being such a sequence):
  the panel of the \<open>j\<close>-th registered tab is shown when the header clicked last is the
  header of that tab, and hidden otherwise. So exactly one registered panel is shown
  after a click on a registered header, the panel of that header; and after a click on
  a built-in header no registered panel is shown and the native editor surface is shown.
  Shown and hidden are the display state that \<^verbatim>\<open>show()\<close> and \<^verbatim>\<open>hide()\<close> set on the panel.
\<close>

theorem registered_tabs_exclusive:
  assumes "wysiwyg_tabs p0 = Some lis0" and "list_all builtin_header lis0"
    and "regs \<noteq> []"
    and "list_all good_id (registered_ids regs)" and "distinct (registered_ids regs)"
    and "list_all (unused_id (registered_ids regs)) (before_tabs p0)"
    and "list_all (unused_inside (registered_ids regs)) (registered_panels regs)"
    and "ns \<noteq> []" and "list_all (\<lambda>n. n < length lis0 + length regs) ns"
    and "list_all simple_header (lis0 @ registered_headers regs)"
    and "list_all simple_panel (registered_panels regs)"
  shows "\<exists>q. clicks eng ns (register_tabs regs p0) = Inr q
           \<and> (\<forall>j < length regs.
                 displayed q (InBefore (length (before_tabs p0) + j)) = Some (last ns = length lis0 + j))
           \<and> (last ns < length lis0 \<longrightarrow> editors_shown q)"
proof -
  let ?p = "register_tabs regs p0"
  let ?ids = "registered_ids regs"
  let ?b = "length (before_tabs p0)"
  define mi where "mi = (\<lambda>i. ''menu-item-'' @ i)"
  have k: "length ?ids = length regs" by (simp add: registered_ids_def)
  from register_tabs_ids [OF assms(1), of regs]
  have ri: "map li_id (row ?p) = map li_id lis0 @ map (\<lambda>i. Some (mi i)) ?ids"
    unfolding mi_def by simp
  have good: "\<not> match_builtin (mi i) \<and> plain_id (Some (mi i))" if "i \<in> set ?ids" for i
  proof -
    from that assms(4) have g: "good_id i" by (simp add: list_all_iff)
    then have "i \<noteq> []" "list_all name_char i" "\<not> has_substring ''menu-item-'' i"
      by (simp_all add: good_id_def)
    from registered_header_is_plain [OF this] g show ?thesis
      unfolding mi_def good_id_def by blast
  qed
  have sel: "jq eng (selector_of (mi (?ids ! j))) ?p = Inr [InBefore (?b + j)]" if "j < length regs" for j
    unfolding mi_def by (rule registered_selects_panel [OF assms(1,6,7,5) that assms(4)])
  have old: "match_builtin x" if "n < length lis0" and "li_id (lis0 ! n) = Some x" for n x
  proof -
    from that(1) have "lis0 ! n \<in> set lis0" by simp
    with assms(2) have "builtin_header (lis0 ! n)" by (simp add: list_all_iff)
    with that(2) show ?thesis by (simp add: builtin_header_def)
  qed
  have oldp: "plain_id (li_id l)" if "l \<in> set lis0" for l
  proof -
    from that assms(2) have "builtin_header l" by (simp add: list_all_iff)
    then show ?thesis by (auto simp: builtin_header_def plain_id_def split: option.splits)
  qed
  have pl: "list_all plain_id (map li_id (row ?p))"
    unfolding ri using oldp good by (auto simp: list_all_iff)
  have hd: "list_all (handled ?p) ns"
    using assms(9) registered_handled [OF assms(1) _ assms(3)] by (simp add: list_all_iff)
  from clicks_plain [OF assms(8) hd pl, of eng]
  obtain q xa where c: "clicks eng ns ?p = Inr q"
    and l: "nth_opt (map li_id (row ?p)) (last ns) = Some (Some xa)"
    and cp: "click_post eng ?p xa q"
    by blast
  from cp have ed: "match_builtin xa \<longrightarrow> editors_shown q"
    unfolding click_post_def by blast
  from cp have sh: "displayed q t =
      Some (\<not> match_builtin xa \<and> (\<exists>tsa. jq eng (selector_of xa) ?p = Inr tsa \<and> t \<in> set tsa))"
    if "Some x \<in> set (map li_id (row ?p))" and "\<not> match_builtin x"
      and "jq eng (selector_of x) ?p = Inr ts" and "t \<in> set ts" for x ts t
    unfolding click_post_def using that by blast
  from l have ll: "last ns < length lis0 + length regs"
    and lv: "(map li_id lis0 @ map (\<lambda>i. Some (mi i)) ?ids) ! last ns = Some xa"
    unfolding ri by (simp_all add: nth_opt_Some_iff k)
  have xa_old: "match_builtin xa" if "last ns < length lis0"
  proof -
    from that lv have "li_id (lis0 ! last ns) = Some xa" by (simp add: nth_append)
    with that show ?thesis by (rule old)
  qed
  have d: "displayed q (InBefore (?b + j)) = Some (last ns = length lis0 + j)" if j: "j < length regs" for j
  proof -
    from j k have m: "?ids ! j \<in> set ?ids" by simp
    from good [OF m] have nb: "\<not> match_builtin (mi (?ids ! j))" by simp
    from m have xin: "Some (mi (?ids ! j)) \<in> set (map li_id (row ?p))"
      unfolding ri by simp
    have "InBefore (?b + j) \<in> set [InBefore (?b + j)]" by simp
    from sh [OF xin nb sel [OF j] this]
    have e: "displayed q (InBefore (?b + j))
        = Some (\<not> match_builtin xa \<and> (\<exists>tsa. jq eng (selector_of xa) ?p = Inr tsa \<and> InBefore (?b + j) \<in> set tsa))" .
    show ?thesis
    proof (cases "last ns < length lis0")
      case True
      with e xa_old show ?thesis by simp
    next
      case nl: False
      define j' where "j' = last ns - length lis0"
      with nl ll have j': "j' < length regs" "last ns = length lis0 + j'" by simp_all
      from lv j' k have xa: "xa = mi (?ids ! j')"
        by (simp add: nth_append)
      from j' k have "?ids ! j' \<in> set ?ids" by simp
      from good [OF this] have nb': "\<not> match_builtin xa" unfolding xa by simp
      from sel [OF j'(1)] have "jq eng (selector_of xa) ?p = Inr [InBefore (?b + j')]"
        unfolding xa .
      with e nb' j'(2) show ?thesis by auto
    qed
  qed
  from c d ed xa_old show ?thesis by blast
qed

theorem registered_tabs_exclusive_witness:
  "wysiwyg_tabs editor_page = Some [bbcode_tab, visual_tab]
   \<and> list_all builtin_header [bbcode_tab, visual_tab]
   \<and> [(''1478000000000'', foo_args), (''1478000000001'', bar_args)] \<noteq> []
   \<and> list_all good_id (registered_ids [(''1478000000000'', foo_args), (''1478000000001'', bar_args)])
   \<and> distinct (registered_ids [(''1478000000000'', foo_args), (''1478000000001'', bar_args)])
   \<and> list_all (unused_id (registered_ids [(''1478000000000'', foo_args), (''1478000000001'', bar_args)]))
        (before_tabs editor_page)
   \<and> list_all (unused_inside (registered_ids [(''1478000000000'', foo_args), (''1478000000001'', bar_args)]))
        (registered_panels [(''1478000000000'', foo_args), (''1478000000001'', bar_args)])
   \<and> [2, 0, 3] \<noteq> []
   \<and> list_all (\<lambda>n. n < length [bbcode_tab, visual_tab]
                        + length [(''1478000000000'', foo_args), (''1478000000001'', bar_args)]) [2, 0, 3]
   \<and> list_all simple_header ([bbcode_tab, visual_tab]
          @ registered_headers [(''1478000000000'', foo_args), (''1478000000001'', bar_args)])
   \<and> list_all simple_panel (registered_panels [(''1478000000000'', foo_args), (''1478000000001'', bar_args)])
   \<and> (\<exists>q. clicks no_engine [2, 0, 3] two_tabs = Inr q
          \<and> displayed q (InBefore 0) = Some False \<and> displayed q (InBefore 1) = Some True)"
proof -
  let ?regs = "[(''1478000000000'', foo_args), (''1478000000001'', bar_args)]"
  have h1: "wysiwyg_tabs editor_page = Some [bbcode_tab, visual_tab]"
    by (simp add: editor_page_def)
  have h2: "list_all builtin_header [bbcode_tab, visual_tab]"
    by code_simp
  have h3: "?regs \<noteq> []" by simp
  have h4: "list_all good_id (registered_ids ?regs)"
    by code_simp
  have h5: "distinct (registered_ids ?regs)"
    by code_simp
  have h6: "list_all (unused_id (registered_ids ?regs)) (before_tabs editor_page)"
    by (simp add: editor_page_def)
  have h6': "list_all (unused_inside (registered_ids ?regs)) (registered_panels ?regs)"
    by code_simp
  have h7: "[2, 0, 3] \<noteq> ([] :: nat list)" by simp
  have h8: "list_all (\<lambda>n. n < length [bbcode_tab, visual_tab] + length ?regs) [2, 0, 3]"
    by simp
  have h9: "list_all simple_header ([bbcode_tab, visual_tab] @ registered_headers ?regs)"
    by code_simp
  have h10: "list_all simple_panel (registered_panels ?regs)"
    by code_simp
  have b: "length (before_tabs editor_page) = 0" by (simp add: editor_page_def)
  from registered_tabs_exclusive [OF h1 h2 h3 h4 h5 h6 h6' h7 h8 h9 h10, of no_engine, folded two_tabs_def]
  obtain q where c: "clicks no_engine [2, 0, 3] two_tabs = Inr q"
    and d: "\<forall>j < length ?regs. displayed q (InBefore (length (before_tabs editor_page) + j))
          = Some (last [2, 0, 3] = length [bbcode_tab, visual_tab] + j)"
    by blast
  from d [rule_format, of 0] have d0: "displayed q (InBefore 0) = Some False"
    by (simp add: b)
  from d [rule_format, of 1] have d1: "displayed q (InBefore 1) = Some True"
    by (simp add: b)
  from c d0 d1 have "\<exists>q. clicks no_engine [2, 0, 3] two_tabs = Inr q
          \<and> displayed q (InBefore 0) = Some False \<and> displayed q (InBefore 1) = Some True"
    by blast
  with h1 h2 h3 h4 h5 h6 h6' h7 h8 h9 h10 show ?thesis by blast
qed

text \<open>
  The claim as stated fails for a registered tab whose id contains \<^verbatim>\<open>visual\<close>: the tab
  with id \<^verbatim>\<open>visuals\<close> is created by \<^verbatim>\<open>bbc_tab\<close>, its panel is the element returned, and
  after a click on its header the panel is hidden and the native editor surface is shown:
  no custom panel is visible. It also fails, for another reason, for a registered tab
  whose id contains \<^verbatim>\<open>menu-item-\<close>: for the header of the tab with id
  \<^verbatim>\<open>notes-menu-item-1\<close> the handler builds the selector \<^verbatim>\<open>#notes-\<close>, which selects nothing,
  and after a click on that header its panel is hidden, and so is the editor surface.
\<close>

theorem clicked_registered_tab_stays_hidden:
  "fst (bbc_tab ''1478000000000'' visuals_args editor_page) = Attached (InBefore 0)
   \<and> map li_id (row visuals_page) = [Some ''menu-item-bbcode'', Some ''menu-item-visual'', Some ''menu-item-visuals'']
   \<and> map e_id (before_tabs visuals_page) = [Some ''visuals'']
   \<and> shown_after (clicks no_engine [2] visuals_page) (InBefore 0) = Some False
   \<and> editors_after (clicks no_engine [2] visuals_page) = Some True
   \<and> fst (bbc_tab ''1478000000000'' notes_args editor_page) = Attached (InBefore 0)
   \<and> map li_id (row notes_page) = [Some ''menu-item-bbcode'', Some ''menu-item-visual'', Some ''menu-item-notes-menu-item-1'']
   \<and> map e_id (before_tabs notes_page) = [Some ''notes-menu-item-1'']
   \<and> selector_of ''menu-item-notes-menu-item-1'' = ''#notes-''
   \<and> shown_after (clicks no_engine [2] notes_page) (InBefore 0) = Some False
   \<and> editors_after (clicks no_engine [2] notes_page) = Some False"
  by code_simp

text \<open>
  The ids inside the contents matter: when the content of the first tab holds an element
  with the id of the second tab, \<^verbatim>\<open>$("#bar")\<close> is that element, which precedes the panel of
  the second tab in the document. A click on the header of the second tab then shows
  the element inside the first panel, whose panel stays hidden, and leaves the panel of
  the clicked tab hidden.
\<close>

lemma id_inside_content_is_found_first:
  "getElementById ''bar'' nested_page = Some (WithinBefore 0 0)
   \<and> map e_id (before_tabs nested_page) = [Some ''foo'', Some ''bar'']
   \<and> effects_after (clicks no_engine [3] nested_page) =
        Some [HideEditors, HideEditors,
              Call ''bar_hide'' (Some ''bar_context'') (InRow 3) (InBefore 1), Hide [InBefore 0],
              Call ''bar_show'' (Some ''bar_context'') (InRow 3) (InBefore 1), Show [WithinBefore 0 0]]
   \<and> shown_after (clicks no_engine [3] nested_page) (InBefore 0) = Some False
   \<and> shown_after (clicks no_engine [3] nested_page) (InBefore 1) = Some False
   \<and> shown_after (clicks no_engine [3] nested_page) (WithinBefore 0 0) = Some True"
  by code_simp

subsection \<open>C2: a repeated click\<close>

text \<open>
  Claim C2, as amended. The handler never looks at which header is active or which
  panel is shown. In a row of plain ids (as in C1), a click on a header followed by a
  second click on the same header raises no exception, and the second click has exactly
  the effects of the first one again, in the same order: the same callbacks are called
  with the same arguments, and the same nodes are hidden and shown. The call count of
  every callback grows on the repeated click by as much as on the first click.
\<close>

theorem repeated_click_repeats_effects:
  assumes "list_all plain_id (map li_id (row p))"
  shows "\<exists>p1 p2 es. click eng n p = Inr p1 \<and> click eng n p1 = Inr p2
           \<and> effects p1 = effects p @ es \<and> effects p2 = effects p1 @ es
           \<and> (\<forall>f. call_count f (effects p1) = call_count f (effects p) + call_count f es
                \<and> call_count f (effects p2) = call_count f (effects p1) + call_count f es)"
proof -
  from click_rel [OF assms refl, of eng n]
  obtain p1 where a: "click eng n p = Inr p1" and f: "frame p1 = frame p" by blast
  from click_rel [OF assms f [symmetric], of eng n] a
  obtain p2 es where "click eng n p1 = Inr p2"
    and "effects p1 = effects p @ es" and "effects p2 = effects p1 @ es"
    by auto
  with a show ?thesis by (metis call_count_append)
qed

theorem repeated_click_repeats_effects_witness:
  "list_all plain_id (map li_id (row two_tabs))
   \<and> (\<exists>p1 p2. click no_engine 3 two_tabs = Inr p1 \<and> click no_engine 3 p1 = Inr p2
          \<and> effects p1 = [HideEditors, HideEditors,
                           Call ''bar_hide'' (Some ''bar_context'') (InRow 3) (InBefore 1), Hide [InBefore 0],
                           Call ''bar_show'' (Some ''bar_context'') (InRow 3) (InBefore 1), Show [InBefore 1]]
          \<and> effects p2 = effects p1 @ effects p1
          \<and> call_count ''bar_show'' (effects p1) = 1 \<and> call_count ''bar_show'' (effects p2) = 2)"
proof -
  from repeated_click_repeats_effects [OF two_tabs_plain, of no_engine 3]
  obtain p1 p2 es where c1: "click no_engine 3 two_tabs = Inr p1" and c2: "click no_engine 3 p1 = Inr p2"
    and e1: "effects p1 = effects two_tabs @ es" and e2: "effects p2 = effects p1 @ es"
    by blast
  have "effects_after (click no_engine 3 two_tabs) = Some [HideEditors, HideEditors,
                           Call ''bar_hide'' (Some ''bar_context'') (InRow 3) (InBefore 1), Hide [InBefore 0],
                           Call ''bar_show'' (Some ''bar_context'') (InRow 3) (InBefore 1), Show [InBefore 1]]"
    by code_simp
  with c1 have v: "effects p1 = [HideEditors, HideEditors,
                           Call ''bar_hide'' (Some ''bar_context'') (InRow 3) (InBefore 1), Hide [InBefore 0],
                           Call ''bar_show'' (Some ''bar_context'') (InRow 3) (InBefore 1), Show [InBefore 1]]"
    by (simp add: effects_after_def)
  have "effects two_tabs = []" by code_simp
  with e1 have "es = effects p1" by simp
  with e2 have "effects p2 = effects p1 @ effects p1" by simp
  with c1 c2 v two_tabs_plain show ?thesis by simp
qed

text \<open>
  The claim as stated fails on the page with the two example tabs: a second click on the
  header of the second tab, which is active after the first click, calls its show
  callback and its hide callback once more.
\<close>

theorem repeated_click_calls_again:
  "count_after ''bar_show'' (clicks no_engine [3] two_tabs) = Some 1
   \<and> count_after ''bar_show'' (clicks no_engine [3, 3] two_tabs) = Some 2
   \<and> count_after ''bar_hide'' (clicks no_engine [3] two_tabs) = Some 1
   \<and> count_after ''bar_hide'' (clicks no_engine [3, 3] two_tabs) = Some 2"
  by code_simp

subsection \<open>C3: the hide callback, then the panel is hidden\<close>

text \<open>
  What the step of the loop does. When the loop reaches (in page \<open>q\<close>) a header whose id
  \<open>x\<close> does not count as built-in and differs from the id of the clicked header, and
  \<^verbatim>\<open>$(selector)\<close> for that header selects at least one node, and the handler that runs has
  a hide callback, then the step raises no exception, the loop goes on with the headers
  after it, and the step has exactly two effects in this order: the call of that hide
  callback, with \<^verbatim>\<open>this\<close> bound to the context if there is one; then \<^verbatim>\<open>hide()\<close> on the nodes
  selected, which are hidden afterwards. The callback and its two arguments are those
  that the running handler has captured at its registration (\<^verbatim>\<open>events\<close>, \<^verbatim>\<open>$tab\<close>,
  \<^verbatim>\<open>$tab_content\<close>): they do not depend on the header \<open>x\<close> that the loop has reached.
\<close>

lemma loop_step_calls_hide_then_hides:
  assumes "each_loop eng cl active pre p = Inr q"
    and "\<not> match_builtin x" and "active \<noteq> Some x"
    and "jq eng (selector_of x) q = Inr ts" and "ts \<noteq> []"
    and "cl_events cl = Some ev" and "ev_hide ev = Some f"
  shows "\<exists>q'. each_li eng cl active (Some x) q = Inr q'
           \<and> each_loop eng cl active (pre @ Some x # post) p = each_loop eng cl active post q'
           \<and> effects q' = effects q @ [Call f (ev_context ev) (cl_tab cl) (cl_tab_content cl), Hide ts]
           \<and> (\<forall>t \<in> set ts. displayed q' t = map_option (\<lambda>_. False) (displayed q t))"
proof -
  have s: "each_li eng cl active (Some x) q = Inr (hide ts (call_hide cl q))"
    using assms by (simp add: each_li_eq)
  have e: "effects (hide ts (call_hide cl q)) =
      effects q @ [Call f (ev_context ev) (cl_tab cl) (cl_tab_content cl), Hide ts]"
    using assms by (simp add: hide_def call_hide_def)
  have d: "\<forall>t \<in> set ts. displayed (hide ts (call_hide cl q)) t = map_option (\<lambda>_. False) (displayed q t)"
    by (simp add: displayed_hide)
  show ?thesis
    using assms(1) s e d by (simp add: each_loop_append)
qed

text \<open>
  Claim C3 says that the hide callback registered for the header that the loop has
  reached is called, with that header and its panel as arguments, before that panel is
  hidden; so does the documentation of \<^verbatim>\<open>bbc_tab\<close>: the hide event of a tab is called when
  another tab is clicked, and tab and content are passed. The code does otherwise as
  soon as two tabs are registered. On the page with the two example tabs, \<^verbatim>\<open>foo\<close> (header
  at place 2 of the row, panel at place 0 before the row) and \<^verbatim>\<open>bar\<close> (header at place 3,
  panel at place 1), a click on the header of \<^verbatim>\<open>bar\<close> runs the one handler bound to it,
  that of \<^verbatim>\<open>bar\<close>. Its loop reaches the header of \<^verbatim>\<open>foo\<close>, which is not the clicked one, is
  not built-in, and whose panel is in the document. The callback then called is the hide
  callback of \<^verbatim>\<open>bar\<close>, the tab that was clicked, with the header and the panel of \<^verbatim>\<open>bar\<close>;
  after it the panel of \<^verbatim>\<open>foo\<close> is hidden. The hide callback of \<^verbatim>\<open>foo\<close> is not called at
  all, and no callback receives the header or the panel of \<^verbatim>\<open>foo\<close>.
\<close>

theorem hide_callback_of_the_clicked_tab:
  "map li_id (row two_tabs) =
     [Some ''menu-item-bbcode'', Some ''menu-item-visual'', Some ''menu-item-foo'', Some ''menu-item-bar'']
   \<and> map li_click (row two_tabs) =
     [[foo_closure, bar_closure], [foo_closure, bar_closure], [foo_closure, bar_closure], [bar_closure]]
   \<and> cl_tab foo_closure = InRow 2 \<and> cl_tab_content foo_closure = InBefore 0
   \<and> cl_tab bar_closure = InRow 3 \<and> cl_tab_content bar_closure = InBefore 1
   \<and> getElementById ''foo'' two_tabs = Some (InBefore 0)
   \<and> getElementById ''bar'' two_tabs = Some (InBefore 1)
   \<and> effects two_tabs = []
   \<and> effects_after (click no_engine 3 two_tabs) =
        Some [HideEditors, HideEditors,
              Call ''bar_hide'' (Some ''bar_context'') (InRow 3) (InBefore 1), Hide [InBefore 0],
              Call ''bar_show'' (Some ''bar_context'') (InRow 3) (InBefore 1), Show [InBefore 1]]
   \<and> count_after ''foo_hide'' (click no_engine 3 two_tabs) = Some 0
   \<and> count_after ''bar_hide'' (click no_engine 3 two_tabs) = Some 1"
  by code_simp

subsection \<open>C4: a header whose panel is not in the document\<close>

text \<open>
  Claim C4. For a header whose id \<open>x\<close> does not count as built-in and whose selector
  selects nothing in the page \<open>q\<close> the handler has reached, the step of the loop and the
  part after the loop both return the page \<open>q\<close> itself, without an exception: no effect
  is added (no callback, no \<^verbatim>\<open>hide()\<close>, no \<^verbatim>\<open>show()\<close>) and nothing in the document
  changes. The loop goes on as if the header were not in the row.
\<close>

theorem missing_panel_is_skipped:
  assumes "\<not> match_builtin x" and "jq eng (selector_of x) q = Inr []"
  shows "each_li eng cl active (Some x) q = Inr q
       \<and> show_active eng cl (Some x) q = Inr q
       \<and> (each_loop eng cl active pre p = Inr q \<longrightarrow>
            each_loop eng cl active (pre @ Some x # post) p = each_loop eng cl active post q)"
  using assms by (simp add: each_li_eq show_active_eq each_loop_append)

theorem missing_panel_is_skipped_witness:
  "\<not> match_builtin ''menu-item-gone''
   \<and> jq no_engine (selector_of ''menu-item-gone'') gone_page = Inr []
   \<and> each_li no_engine foo_closure (Some ''menu-item-bbcode'') (Some ''menu-item-gone'') gone_page = Inr gone_page
   \<and> show_active no_engine foo_closure (Some ''menu-item-gone'') gone_page = Inr gone_page
   \<and> each_loop no_engine foo_closure (Some ''menu-item-bbcode'') [Some ''menu-item-gone''] gone_page = Inr gone_page"
proof -
  have h1: "\<not> match_builtin ''menu-item-gone''"
    by (simp add: string_defs)
  have h2: "jq no_engine (selector_of ''menu-item-gone'') gone_page = Inr []"
    by code_simp
  from missing_panel_is_skipped [OF h1 h2, of foo_closure "Some ''menu-item-bbcode''" "[]" gone_page "[]"]
  show ?thesis using h1 h2 by simp
qed

subsection \<open>C5: the built-in tabs\<close>

text \<open>
  Claim C5. A header whose id matches \<^verbatim>\<open>bbcode\<close> or \<^verbatim>\<open>visual\<close>, in any case, is a
  built-in tab for the handler. In the loop the step for it hides the native editor
  surface and does nothing else: its only effect is \<^verbatim>\<open>hide()\<close> on the editors, no
  callback is called and no node changes. When it is the clicked header, the part after
  the loop shows the native editor surface and does nothing else. For the whole handler:
  after a click on such a header the editor surface is shown, and after a click on a
  header that is not built-in, in a row that has a built-in header, it is hidden.
\<close>

theorem builtin_tab_toggles_editors:
  assumes "match_builtin x"
  shows "(\<exists>q. each_li eng cl active (Some x) p = Inr q \<and> \<not> editors_shown q
              \<and> effects q = effects p @ [HideEditors] \<and> (\<forall>t. displayed q t = displayed p t))
       \<and> (\<exists>q. show_active eng cl (Some x) p = Inr q \<and> editors_shown q
              \<and> effects q = effects p @ [ShowEditors] \<and> (\<forall>t. displayed q t = displayed p t))
       \<and> (\<forall>n this p'. nth_opt (row p) n = Some this \<and> li_id this = Some x
              \<and> click_handler eng cl n p = Inr p' \<longrightarrow> editors_shown p')
       \<and> (\<forall>n this y p'. nth_opt (row p) n = Some this \<and> li_id this = Some y \<and> \<not> match_builtin y
              \<and> Some x \<in> set (map li_id (row p))
              \<and> click_handler eng cl n p = Inr p' \<longrightarrow> \<not> editors_shown p')"
proof (intro conjI allI impI)
  show "\<exists>q. each_li eng cl active (Some x) p = Inr q \<and> \<not> editors_shown q
              \<and> effects q = effects p @ [HideEditors] \<and> (\<forall>t. displayed q t = displayed p t)"
    using assms by (simp add: each_li_eq) (simp add: hide_editors_def)
  show "\<exists>q. show_active eng cl (Some x) p = Inr q \<and> editors_shown q
              \<and> effects q = effects p @ [ShowEditors] \<and> (\<forall>t. displayed q t = displayed p t)"
    using assms by (simp add: show_active_eq) (simp add: show_editors_def)
next
  fix n this p'
  assume h: "nth_opt (row p) n = Some this \<and> li_id this = Some x \<and> click_handler eng cl n p = Inr p'"
  then obtain p2 where "show_active eng cl (Some x) p2 = Inr p'"
    by (auto simp: click_handler_unfold split: sum.splits)
  from show_active_editors [OF this] assms show "editors_shown p'" by simp
next
  fix n this y p'
  assume h: "nth_opt (row p) n = Some this \<and> li_id this = Some y \<and> \<not> match_builtin y
              \<and> Some x \<in> set (map li_id (row p)) \<and> click_handler eng cl n p = Inr p'"
  then obtain p2 where l: "each_loop eng cl (Some y) (map li_id (row p)) (p\<lparr>wysiwyg_tabs := Some (mark_active n (row p))\<rparr>) = Inr p2"
    and s: "show_active eng cl (Some y) p2 = Inr p'"
    by (auto simp: click_handler_unfold split: sum.splits)
  from each_loop_editors [OF l] h assms have "\<not> editors_shown p2" by auto
  with show_active_editors [OF s] h show "\<not> editors_shown p'" by simp
qed

theorem builtin_tab_toggles_editors_witness:
  "match_builtin ''menu-item-BBCode''
   \<and> (\<exists>q. each_li no_engine foo_closure (Some ''menu-item-foo'') (Some ''menu-item-BBCode'') two_tabs = Inr q
          \<and> \<not> editors_shown q \<and> effects q = effects two_tabs @ [HideEditors])
   \<and> (\<exists>q. show_active no_engine foo_closure (Some ''menu-item-BBCode'') two_tabs = Inr q
          \<and> editors_shown q \<and> effects q = effects two_tabs @ [ShowEditors])"
proof -
  have h: "match_builtin ''menu-item-BBCode''"
    by (simp add: string_defs)
  from builtin_tab_toggles_editors [OF h, of no_engine foo_closure "Some ''menu-item-foo''" two_tabs]
  show ?thesis using h by blast
qed

subsection \<open>C7: what a registration creates\<close>

text \<open>
  Claim C7. When the page has a tab row, \<^verbatim>\<open>bbc_tab\<close> with identifier \<open>id\<close> (the id given,
  or the timestamp when none or an empty one is given) appends one header to the row,
  with DOM id \<^verbatim>\<open>menu-item-\<close>\<open>id\<close>, the headers before it keeping their ids; it adds one
  element with DOM id \<open>id\<close> as the last element before the row, that is, immediately
  before it; that element is hidden; and the value returned is that element.
\<close>

theorem bbc_tab_creates_tab_and_panel:
  assumes "wysiwyg_tabs p = Some lis" and "bbc_tab now a p = (r, p')"
  shows "map li_id (row p') = map li_id lis @ [Some (''menu-item-'' @ effective_id now a)]
       \<and> map e_id (before_tabs p') = map e_id (before_tabs p) @ [Some (effective_id now a)]
       \<and> r = Attached (InBefore (length (before_tabs p)))
       \<and> length (before_tabs p') = Suc (length (before_tabs p))
       \<and> displayed p' (InBefore (length (before_tabs p))) = Some False
       \<and> after_tabs p' = after_tabs p
       \<and> (\<forall>i. arg_id a = Some i \<and> i \<noteq> [] \<longrightarrow> effective_id now a = i)"
proof -
  have n: "nth_opt (xs @ [y]) (length xs) = Some y" for xs :: "elem list" and y
    by (induction xs) simp_all
  show ?thesis
    using assms
    by (auto simp: bbc_tab_def Let_def row_def bind_click_def comp_def new_tab_def
        new_tab_content_def displayed_def n effective_id_def)
qed

theorem bbc_tab_creates_tab_and_panel_witness:
  "wysiwyg_tabs editor_page = Some [bbcode_tab, visual_tab]
   \<and> map li_id (row (snd (bbc_tab ''1478000000000'' foo_args editor_page)))
       = [Some ''menu-item-bbcode'', Some ''menu-item-visual'', Some ''menu-item-foo'']
   \<and> map e_id (before_tabs (snd (bbc_tab ''1478000000000'' foo_args editor_page))) = [Some ''foo'']
   \<and> fst (bbc_tab ''1478000000000'' foo_args editor_page) = Attached (InBefore 0)
   \<and> displayed (snd (bbc_tab ''1478000000000'' foo_args editor_page)) (InBefore 0) = Some False"
proof -
  have h: "wysiwyg_tabs editor_page = Some [bbcode_tab, visual_tab]"
    by (simp add: editor_page_def)
  have e: "effective_id ''1478000000000'' foo_args = ''foo''"
    by (simp add: effective_id_def foo_args_def)
  from bbc_tab_creates_tab_and_panel [OF h surjective_pairing, of "''1478000000000''" foo_args]
  show ?thesis
    using h e by (simp add: editor_page_def bbcode_tab_def visual_tab_def)
qed

subsection \<open>C8: the platform's page data\<close>

lemma member_truthy: "truthy v \<Longrightarrow> member r v k = Inr (read r v k)"
  by (cases v) (simp_all add: member_def read_def truthy_def)

lemma read_own_property: "own_property r v k = Some w \<Longrightarrow> read r v k = w"
  by (cases v)
     (auto simp: own_property_def read_def member_def get_property_def split: option.splits)

text \<open>
  Claim C8, as amended. When the identifier \<^verbatim>\<open>proboards\<close> is declared, \<^verbatim>\<open>__get_data(key)\<close>
  never throws. When \<^verbatim>\<open>proboards\<close>, \<^verbatim>\<open>proboards.dataHash\<close> and \<^verbatim>\<open>proboards.dataHash.page\<close> are
  all truthy, it returns what the read \<^verbatim>\<open>proboards.dataHash.page[key]\<close> gives, unless that is
  \<^verbatim>\<open>undefined\<close>: the value that the page data has of its own under the key, or else the
  value that it inherits under the key from its prototype chain. In every other case it
  returns the empty string: one of the three is falsy, or the read gives \<^verbatim>\<open>undefined\<close>.
\<close>

theorem get_data_declared:
  "get_data r (Declared pb) key =
     Inr (case page_data r pb of
            None \<Rightarrow> String []
          | Some pg \<Rightarrow> if read r pg key = Undefined then String [] else read r pg key)
   \<and> (\<forall>pg v. page_data r pb = Some pg \<and> own_property r pg key = Some v \<and> v \<noteq> Undefined
          \<longrightarrow> get_data r (Declared pb) key = Inr v)
   \<and> (\<forall>pg. page_data r pb = Some pg \<and> read r pg key = Undefined
          \<longrightarrow> get_data r (Declared pb) key = Inr (String []))
   \<and> (page_data r pb = None \<longrightarrow> get_data r (Declared pb) key = Inr (String []))"
proof -
  have g: "get_data r (Declared pb) key =
     Inr (case page_data r pb of
            None \<Rightarrow> String []
          | Some pg \<Rightarrow> if read r pg key = Undefined then String [] else read r pg key)"
    by (simp add: get_data_def page_data_def member_truthy)
  have "get_data r (Declared pb) key = Inr v"
    if "page_data r pb = Some pg" and "own_property r pg key = Some v" and "v \<noteq> Undefined" for pg v
    using that read_own_property [OF that(2)] by (simp add: g)
  with g show ?thesis by simp
qed

theorem get_data_declared_witness:
  "page_data browser platform = Some (Ref 7)
   \<and> own_property browser (Ref 7) ''id'' = Some (Number 7)
   \<and> get_data browser (Declared platform) ''id'' = Inr (Number 7)
   \<and> read browser (Ref 7) ''board'' = Undefined
   \<and> get_data browser (Declared platform) ''board'' = Inr (String [])
   \<and> own_property browser (Ref 7) ''draft'' = Some Undefined
   \<and> get_data browser (Declared platform) ''draft'' = Inr (String [])
   \<and> page_data browser (Ref 12) = Some (String ''abc'')
   \<and> own_property browser (String ''abc'') ''length'' = Some (Number 3)
   \<and> get_data browser (Declared (Ref 12)) ''length'' = Inr (Number 3)
   \<and> page_data browser Undefined = None
   \<and> get_data browser (Declared Undefined) ''id'' = Inr (String [])"
proof -
  have p: "page_data browser platform = Some (Ref 7)" by code_simp
  have o: "own_property browser (Ref 7) ''id'' = Some (Number 7)" by code_simp
  have n: "Number 7 \<noteq> Undefined" by simp
  have b: "read browser (Ref 7) ''board'' = Undefined" by code_simp
  have d: "own_property browser (Ref 7) ''draft'' = Some Undefined" by code_simp
  have s: "page_data browser (Ref 12) = Some (String ''abc'')" by code_simp
  have l: "own_property browser (String ''abc'') ''length'' = Some (Number 3)" by code_simp
  have m: "Number 3 \<noteq> Undefined" by simp
  have u: "page_data browser Undefined = None" by code_simp
  from get_data_declared [of browser platform "''id''"] p o n
  have 1: "get_data browser (Declared platform) ''id'' = Inr (Number 7)" by blast
  from get_data_declared [of browser platform "''board''"] p b
  have 2: "get_data browser (Declared platform) ''board'' = Inr (String [])" by blast
  from get_data_declared [of browser platform "''draft''"] p read_own_property [OF d]
  have 3: "get_data browser (Declared platform) ''draft'' = Inr (String [])" by blast
  from get_data_declared [of browser "Ref 12" "''length''"] s l m
  have 4: "get_data browser (Declared (Ref 12)) ''length'' = Inr (Number 3)" by blast
  from get_data_declared [of browser Undefined "''id''"] u
  have 5: "get_data browser (Declared Undefined) ''id'' = Inr (String [])" by blast
  from p o 1 b 2 d 3 s l 4 u 5 show ?thesis by blast
qed

text \<open>
  The claim as stated fails for a key that the page data does not have and that the
  prototype chain has. The platform's page data holds \<^verbatim>\<open>id\<close>, \<^verbatim>\<open>member\<close> and \<^verbatim>\<open>draft\<close>; the
  key \<^verbatim>\<open>constructor\<close> is absent from it, and \<^verbatim>\<open>__get_data("constructor")\<close> returns the
  function \<^verbatim>\<open>Object\<close>, which the page data inherits from \<^verbatim>\<open>Object.prototype\<close>, not the empty
  string. It also fails, for another reason, when the platform is missing altogether:
  with the identifier \<^verbatim>\<open>proboards\<close> not declared, the read of it in the condition throws a
  ReferenceError.
\<close>

theorem inherited_key_is_returned:
  "page_data browser platform = Some (Ref 7)
   \<and> own_property browser (Ref 7) ''constructor'' = None
   \<and> get_data browser (Declared platform) ''constructor'' = Inr (Ref 2)
   \<and> get_data browser (Declared platform) ''toString'' = Inr (Ref 3)
   \<and> get_data browser Undeclared ''id'' = Inl ReferenceError"
  by code_simp

subsection \<open>C9: a header without an id\<close>

text \<open>
  Claim C9. When some header of the row has no id attribute, a click on any header of
  the row that has a handler bound ends in an exception: the handler is not total. The
  exception is the TypeError of \<^verbatim>\<open>id.match\<close> on \<^verbatim>\<open>undefined\<close>, unless the selector engine
  has thrown for a header before it. So the handler runs without an exception only when
  every header of the row has an id attribute.
\<close>

theorem header_without_id_throws:
  assumes "nth_opt (row p) n = Some this" and "li_click this \<noteq> []"
    and "l \<in> set (row p)" and "li_id l = None"
  shows "(\<exists>e. click eng n p = Inl e)
       \<and> ((\<forall>sel q. eng sel q \<noteq> None) \<longrightarrow> click eng n p = Inl TypeError)"
proof -
  from assms(2) obtain cl cls where c: "li_click this = cl # cls"
    by (cases "li_click this") auto
  have "None \<in> set (map li_id (row p))"
    using assms(3,4) by force
  from each_loop_no_id [OF this]
  obtain e where e: "each_loop eng cl (li_id this) (map li_id (row p))
      (p\<lparr>wysiwyg_tabs := Some (mark_active n (row p))\<rparr>) = Inl e"
    by blast
  have r: "click eng n p = Inl e"
    using assms(1) c e by (simp add: click_def click_handler_unfold)
  show ?thesis
    using r each_loop_total_engine [OF _ e] by auto
qed

theorem header_without_id_throws_witness:
  "nth_opt (row anonymous_page) 0 = Some (bind_click \<lparr>cl_tab = InRow 2, cl_tab_content = InBefore 0, cl_events = arg_events foo_args\<rparr> bbcode_tab)
   \<and> li_click (bind_click \<lparr>cl_tab = InRow 2, cl_tab_content = InBefore 0, cl_events = arg_events foo_args\<rparr> bbcode_tab) \<noteq> [] 
   \<and> bind_click \<lparr>cl_tab = InRow 2, cl_tab_content = InBefore 0, cl_events = arg_events foo_args\<rparr> anonymous_tab \<in> set (row anonymous_page)
   \<and> li_id (bind_click \<lparr>cl_tab = InRow 2, cl_tab_content = InBefore 0, cl_events = arg_events foo_args\<rparr> anonymous_tab) = None
   \<and> (\<exists>e. click no_engine 0 anonymous_page = Inl e)"
proof -
  let ?cl = "\<lparr>cl_tab = InRow 2, cl_tab_content = InBefore 0, cl_events = arg_events foo_args\<rparr>"
  have r: "row anonymous_page = [bind_click ?cl bbcode_tab, bind_click ?cl anonymous_tab, bind_click ?cl (new_tab ''1478000000000'' foo_args)]"
    by (simp add: anonymous_page_def bbc_tab_def editor_page_def row_def Let_def numeral_2_eq_2)
  have h1: "nth_opt (row anonymous_page) 0 = Some (bind_click ?cl bbcode_tab)"
    by (simp add: r)
  have h2: "li_click (bind_click ?cl bbcode_tab) \<noteq> []"
    by (simp add: bind_click_def)
  have h3: "bind_click ?cl anonymous_tab \<in> set (row anonymous_page)"
    by (simp add: r)
  have h4: "li_id (bind_click ?cl anonymous_tab) = None"
    by (simp add: bind_click_def anonymous_tab_def)
  from header_without_id_throws [OF h1 h2 h3 h4, of no_engine]
  show ?thesis using h1 h2 h3 h4 by blast
qed

subsection \<open>C10: one handler per registration on every header then in the row\<close>

text \<open>
  Claim C10, as amended. Each registration binds its own handler to every header in the
  row at that moment, the new header included. After \<open>k\<close> registrations on a row of
  headers, a header that was in the row before the first of them has the \<open>k\<close> new
  handlers after those it had, and the header created by the \<open>j\<close>-th registration has
  only the handlers of the registrations \<open>j\<close> to \<open>k\<close>, that is \<open>k - j + 1\<close> of them. A click
  runs the handlers of the clicked header in that order. Every callback a handler calls
  is a callback of its own registration, called with the context, the header and the
  panel its own registration has captured.
\<close>

theorem handlers_after_registrations:
  assumes "wysiwyg_tabs p = Some lis"
  shows "map li_click (row (register_tabs regs p)) =
           map (\<lambda>l. li_click l @ closures (length lis) (length (before_tabs p)) regs) lis
           @ map (\<lambda>j. drop j (closures (length lis) (length (before_tabs p)) regs)) [0..<length regs]
       \<and> (\<forall>n. click eng n (register_tabs regs p) =
            (case nth_opt (map li_click (row (register_tabs regs p))) n of
               None \<Rightarrow> Inr (register_tabs regs p)
             | Some cls \<Rightarrow> run_handlers eng cls n (register_tabs regs p)))
       \<and> (\<forall>cl n q q'. click_handler eng cl n q = Inr q' \<longrightarrow>
            (\<exists>es. effects q' = effects q @ es \<and> own_calls cl es))"
proof (intro conjI allI impI)
  show "map li_click (row (register_tabs regs p)) =
           map (\<lambda>l. li_click l @ closures (length lis) (length (before_tabs p)) regs) lis
           @ map (\<lambda>j. drop j (closures (length lis) (length (before_tabs p)) regs)) [0..<length regs]"
    using assms by (rule register_tabs_clicks)
next
  fix n
  show "click eng n (register_tabs regs p) =
            (case nth_opt (map li_click (row (register_tabs regs p))) n of
               None \<Rightarrow> Inr (register_tabs regs p)
             | Some cls \<Rightarrow> run_handlers eng cls n (register_tabs regs p))"
    by (simp add: click_def nth_opt_map split: option.splits)
next
  fix cl n q q'
  assume "click_handler eng cl n q = Inr q'"
  then show "\<exists>es. effects q' = effects q @ es \<and> own_calls cl es"
    by (rule click_handler_effects)
qed

theorem handlers_after_registrations_witness:
  "wysiwyg_tabs editor_page = Some [bbcode_tab, visual_tab]
   \<and> map li_click (row two_tabs) =
       [[foo_closure, bar_closure], [foo_closure, bar_closure], [foo_closure, bar_closure], [bar_closure]]
   \<and> click no_engine 3 two_tabs = run_handlers no_engine [bar_closure] 3 two_tabs"
proof -
  have h: "wysiwyg_tabs editor_page = Some [bbcode_tab, visual_tab]"
    by (simp add: editor_page_def)
  have b: "before_tabs editor_page = []" by (simp add: editor_page_def)
  have k: "li_click bbcode_tab = []" "li_click visual_tab = []"
    by (simp_all add: bbcode_tab_def visual_tab_def)
  note t = handlers_after_registrations [OF h,
      of "[(''1478000000000'', foo_args), (''1478000000001'', bar_args)]" no_engine,
      folded two_tabs_def]
  from t have 1: "map li_click (row two_tabs) =
       [[foo_closure, bar_closure], [foo_closure, bar_closure], [foo_closure, bar_closure], [bar_closure]]"
    by (simp add: b k upt_rec foo_closure_def bar_closure_def eval_nat_numeral)
  from t have "click no_engine 3 two_tabs =
            (case nth_opt (map li_click (row two_tabs)) 3 of
               None \<Rightarrow> Inr two_tabs
             | Some cls \<Rightarrow> run_handlers no_engine cls 3 two_tabs)"
    by blast
  then have "click no_engine 3 two_tabs = run_handlers no_engine [bar_closure] 3 two_tabs"
    by (simp add: 1 eval_nat_numeral)
  with h 1 show ?thesis by simp
qed

text \<open>The claim as stated, "after \<open>k\<close> registrations a single click on any one header runs
  \<open>k\<close> handlers", fails for \<open>k = 2\<close>: the header of the second tab has one handler.\<close>

theorem second_tab_has_one_handler:
  "map (\<lambda>l. length (li_click l)) (row two_tabs) = [2, 2, 2, 1]"
  by (simp add: two_tabs_row bind_click_def new_tab_def example_defs)

end
